theory Spec2Isabelle
  imports Main "HOL-Library.Sublist" "HOL-Library.List_Lexorder" "HOL-Library.Product_Lexorder"
begin

section \<open>Strings\<close>

text \<open>
  A JavaScript string is a sequence of UTF-16 code units, and the regular expressions of
  \<^verbatim>\<open>text.ts\<close> carry no \<^verbatim>\<open>u\<close> flag, so they read the string one code unit at a
  time. A code unit is given by its number. An ASCII literal of the source is written
  with \<open>js\<close>.
\<close>

type_synonym jschar = nat
type_synonym jsstring = "jschar list"

definition js :: "string \<Rightarrow> jsstring" where
  "js s = map of_char s"

text \<open>
  The class \<^verbatim>\<open>\s\<close> of an ECMAScript regular expression, which is also the set of
  characters that \<^verbatim>\<open>String.prototype.trim\<close> removes: WhiteSpace and LineTerminator.
\<close>

definition is_space :: "jschar \<Rightarrow> bool" where
  "is_space c \<longleftrightarrow>
     (9 \<le> c \<and> c \<le> 13) \<or> c = 0x20 \<or> c = 0xA0 \<or> c = 0x1680 \<or>
     (0x2000 \<le> c \<and> c \<le> 0x200A) \<or> c = 0x2028 \<or> c = 0x2029 \<or> c = 0x202F \<or>
     c = 0x205F \<or> c = 0x3000 \<or> c = 0xFEFF"

text \<open>
  \<^verbatim>\<open>s.replace(/[class]/g, rep)\<close>: every code unit of the class is replaced by the
  string \<open>rep\<close> (none of the replacement strings of the source contains \<^verbatim>\<open>$\<close>).
\<close>

definition replace_class :: "(jschar \<Rightarrow> bool) \<Rightarrow> jsstring \<Rightarrow> jsstring \<Rightarrow> jsstring" where
  "replace_class cls rep s = concat (map (\<lambda>c. if cls c then rep else [c]) s)"

definition trim :: "jsstring \<Rightarrow> jsstring" where
  "trim s = rev (dropWhile is_space (rev (dropWhile is_space s)))"

section \<open>text.ts\<close>

text \<open>The character classes of the six regular expressions, in the order of the source.\<close>

definition is_diacritic :: "jschar \<Rightarrow> bool" where
  "is_diacritic c \<longleftrightarrow> 0x064B \<le> c \<and> c \<le> 0x065F"

definition is_tatweel :: "jschar \<Rightarrow> bool" where
  "is_tatweel c \<longleftrightarrow> c = 0x0640"

definition is_alef_variant :: "jschar \<Rightarrow> bool" where
  "is_alef_variant c \<longleftrightarrow> c = 0x0625 \<or> c = 0x0623 \<or> c = 0x0622"

definition is_alif_maqsura :: "jschar \<Rightarrow> bool" where
  "is_alif_maqsura c \<longleftrightarrow> c = 0x0649"

definition is_ta_marbuta :: "jschar \<Rightarrow> bool" where
  "is_ta_marbuta c \<longleftrightarrow> c = 0x0629"

definition in_arabic_block :: "jschar \<Rightarrow> bool" where
  "in_arabic_block c \<longleftrightarrow> 0x0600 \<le> c \<and> c \<le> 0x06FF"

definition not_arabic_or_space :: "jschar \<Rightarrow> bool" where
  "not_arabic_or_space c \<longleftrightarrow> \<not> (in_arabic_block c \<or> is_space c)"

definition normalizeArabicText :: "jsstring \<Rightarrow> jsstring" where
  "normalizeArabicText input =
     trim
       (replace_class not_arabic_or_space []
         (replace_class is_ta_marbuta [0x0647]
           (replace_class is_alif_maqsura [0x064A]
             (replace_class is_alef_variant [0x0627]
               (replace_class is_tatweel []
                 (replace_class is_diacritic [] input))))))"

text \<open>
  \<^verbatim>\<open>s.split(/\s+/)\<close>: the pieces between the maximal runs of whitespace. A run at the
  start or at the end leaves an empty piece there, and the empty string splits into one
  empty piece.
\<close>

function split_ws :: "jsstring \<Rightarrow> jsstring list" where
  "split_ws [] = [[]]"
| "split_ws (c # cs) =
     (if is_space c then [] # split_ws (dropWhile is_space cs)
      else (case split_ws cs of
              [] \<Rightarrow> [[c]]
            | p # ps \<Rightarrow> (c # p) # ps))"
  by pat_completeness auto
termination
  by (relation "measure length") (auto simp: length_dropWhile_le less_Suc_eq_le)

text \<open>\<^verbatim>\<open>.filter(Boolean)\<close> on strings keeps the ones that are not empty.\<close>

definition filter_Boolean :: "jsstring list \<Rightarrow> jsstring list" where
  "filter_Boolean xs = filter (\<lambda>t. t \<noteq> []) xs"

definition tokenizeArabicText :: "jsstring \<Rightarrow> jsstring list" where
  "tokenizeArabicText input = filter_Boolean (split_ws (normalizeArabicText input))"

text \<open>\<^verbatim>\<open>tokens.join(" ")\<close>\<close>

fun join_space :: "jsstring list \<Rightarrow> jsstring" where
  "join_space [] = []"
| "join_space [t] = t"
| "join_space (t # ts) = t @ [0x20] @ join_space ts"

definition tokensToSearchKeys :: "jsstring list \<Rightarrow> jsstring" where
  "tokensToSearchKeys tokens = join_space tokens"

text \<open>
  The pipeline as the specification words it: four deletions are filters, three
  replacements are maps of single characters.
\<close>

definition unify_alef :: "jschar \<Rightarrow> jschar" where
  "unify_alef c = (if c = 0x0625 \<or> c = 0x0623 \<or> c = 0x0622 then 0x0627 else c)"

definition maqsura_to_ya :: "jschar \<Rightarrow> jschar" where
  "maqsura_to_ya c = (if c = 0x0649 then 0x064A else c)"

definition marbuta_to_ha :: "jschar \<Rightarrow> jschar" where
  "marbuta_to_ha c = (if c = 0x0629 then 0x0647 else c)"

definition spec_normalize :: "jsstring \<Rightarrow> jsstring" where
  "spec_normalize s =
     trim
       (filter (\<lambda>c. in_arabic_block c \<or> is_space c)
         (map marbuta_to_ha
           (map maqsura_to_ya
             (map unify_alef
               (filter (\<lambda>c. c \<noteq> 0x0640)
                 (filter (\<lambda>c. \<not> (0x064B \<le> c \<and> c \<le> 0x065F)) s))))))"

section \<open>errors.ts and logger.ts\<close>

text \<open>
  An exception is a value: \<open>EngineError\<close> is what the SQLite binding throws,
  \<open>DBError\<close> is the class of \<^verbatim>\<open>errors.ts\<close> with its message. A computation
  on the world returns an error or a result, and the world it leaves.
\<close>

datatype error = EngineError | DBError string

section \<open>The database engine\<close>

text \<open>
  The engine is SQLite behind \<^verbatim>\<open>react-native-quick-sqlite\<close>, which is not part of the
  repository. It is modelled for the statements that the source sends, one constructor
  per statement text, with the parameters bound to \<^verbatim>\<open>?\<close> as arguments. The model
  follows the documented behaviour of SQLite, with these conventions:
  \<^item> a table is the list of its rows in rowid order, and a new row goes to the end;
  \<^item> \<^verbatim>\<open>INSERT OR REPLACE\<close> deletes the rows that collide with the new one on a
    unique index or primary key, then inserts; \<^verbatim>\<open>INSERT OR IGNORE\<close> does nothing when
    the primary key is taken;
  \<^item> rows with equal \<^verbatim>\<open>ORDER BY\<close> keys stay in rowid order; \<^verbatim>\<open>SELECT DISTINCT\<close>
    on \<^verbatim>\<open>collection\<close> reads the index on that column when there is one, in the order
    of the index, and the table otherwise, in the order of first occurrence;
  \<^item> SQLite stores a text in UTF-8 and orders two texts of the collation \<^verbatim>\<open>BINARY\<close>
    by their bytes, so \<^verbatim>\<open>ORDER BY\<close> compares the UTF-8 encodings; \<^verbatim>\<open>LIKE\<close> is matched
    code unit by code unit, which agrees with SQLite on the patterns that the program
    sends (a normalized query between two \<^verbatim>\<open>%\<close>);
  \<^item> a statement that fails has no effect of its own. Most failures (a constraint, a
    table that is missing) leave an open transaction open; some (a full disk, an I/O
    error) make SQLite roll the whole transaction back on its own, after which the
    connection is in autocommit mode: each later statement is written to the file at
    once, and \<^verbatim>\<open>COMMIT\<close> and \<^verbatim>\<open>ROLLBACK\<close> fail for want of a transaction;
  \<^item> inside a transaction \<^verbatim>\<open>PRAGMA journal_mode = WAL\<close> is refused and
    \<^verbatim>\<open>PRAGMA foreign_keys = ON\<close> does nothing.
\<close>

datatype sql =
    Begin
  | Commit
  | Rollback
  | PragmaJournalModeWal
  | PragmaForeignKeysOn
  | PragmaTableInfo string
  | CreateTableMeta
  | CreateTableCollections
  | CreateTableHadith
  | AlterHadithAddUid
  | UpdateHadithUid
  | CreateIndexCollection
  | CreateIndexSearch
  | CreateUniqueIndexUid
  | CreateTableUserSelectedCollections
  | BackfillCollections
  | SelectSeeded
  | CountHadith
  | ReplaceMetaSeeded
  | InsertOrIgnoreCollection jsstring jsstring "jsstring option" "jsstring option"
  | InsertOrReplaceHadith jsstring jsstring jsstring jsstring jsstring jsstring jsstring
  | SelectHadithLike jsstring

record hadith_row =
  h_id :: jsstring
  h_collection :: jsstring
  h_text_ar :: jsstring
  h_text_norm :: jsstring
  h_tokens_json :: jsstring
  h_search_keys :: jsstring
  h_uid :: "jsstring option"

record collection_row =
  c_id :: jsstring
  c_name :: jsstring
  c_version :: "jsstring option"
  c_description :: "jsstring option"

text \<open>
  The table \<^verbatim>\<open>hadith\<close> with what the migration looks at: whether the column
  \<^verbatim>\<open>uid\<close> exists, which of the three indexes exist, and the rows in rowid order.
  A table made before \<^verbatim>\<open>uid\<close> was introduced has the six other columns.
\<close>

record hadith_tbl =
  has_uid :: bool
  idx_hadith_collection :: bool
  idx_hadith_search :: bool
  idx_hadith_uid :: bool
  h_rows :: "hadith_row list"

text \<open>A database file: each table is absent (\<open>None\<close>) or present with its rows.\<close>

record db =
  meta_table :: "(jsstring \<times> jsstring option) list option"
  collections_table :: "collection_row list option"
  hadith_table :: "hadith_tbl option"
  user_selected_collections_table :: "jsstring list option"

datatype sql_row =
    RColumn string
  | RValue "jsstring option"
  | RCount nat
  | RHadith hadith_row

text \<open>
  \<^verbatim>\<open>LIKE\<close> without \<^verbatim>\<open>ESCAPE\<close>: \<^verbatim>\<open>%\<close> matches any run of characters,
  \<^verbatim>\<open>_\<close> matches one character, and any other character matches itself, the ASCII
  letters without regard to case.
\<close>

definition ascii_lower :: "jschar \<Rightarrow> jschar" where
  "ascii_lower c = (if 0x41 \<le> c \<and> c \<le> 0x5A then c + 0x20 else c)"

fun sql_like :: "jsstring \<Rightarrow> jsstring \<Rightarrow> bool" where
  "sql_like [] [] = True"
| "sql_like [] (c # s) = False"
| "sql_like (p # ps) [] = (p = 0x25 \<and> sql_like ps [])"
| "sql_like (p # ps) (c # s) =
     (if p = 0x25 then sql_like ps (c # s) \<or> sql_like (p # ps) s
      else (p = 0x5F \<or> ascii_lower p = ascii_lower c) \<and> sql_like ps s)"

text \<open>
  \<^verbatim>\<open>CAST(id AS INTEGER)\<close> on a text: leading whitespace is skipped, then the longest
  prefix that reads as an integer is taken, 0 when there is none, and the value is kept
  within 64 bits.
\<close>

definition sqlite_isspace :: "jschar \<Rightarrow> bool" where
  "sqlite_isspace c \<longleftrightarrow> c = 0x20 \<or> (9 \<le> c \<and> c \<le> 13)"

definition is_digit :: "jschar \<Rightarrow> bool" where
  "is_digit c \<longleftrightarrow> 0x30 \<le> c \<and> c \<le> 0x39"

definition digits_value :: "jsstring \<Rightarrow> int" where
  "digits_value ds = foldl (\<lambda>a c. a * 10 + int (c - 0x30)) 0 ds"

definition cast_integer :: "jsstring \<Rightarrow> int" where
  "cast_integer s =
     (let t = dropWhile sqlite_isspace s;
          neg = (t \<noteq> [] \<and> hd t = 0x2D);
          t' = (if t \<noteq> [] \<and> (hd t = 0x2D \<or> hd t = 0x2B) then tl t else t);
          v = digits_value (takeWhile is_digit t')
      in max (- (2 ^ 63)) (min (2 ^ 63 - 1) (if neg then - v else v)))"

text \<open>
  The UTF-8 encoding of a JavaScript string, which is what the binding hands to SQLite:
  a surrogate pair is one code point above \<open>0xFFFF\<close> and takes four bytes, any other
  code unit is its own code point (a surrogate outside a pair is encoded like any other
  three-byte code point).
\<close>

fun code_points :: "jsstring \<Rightarrow> nat list" where
  "code_points [] = []"
| "code_points [c] = [c]"
| "code_points (c # d # cs) =
     (if 0xD800 \<le> c \<and> c \<le> 0xDBFF \<and> 0xDC00 \<le> d \<and> d \<le> 0xDFFF
      then (0x10000 + (c - 0xD800) * 0x400 + (d - 0xDC00)) # code_points cs
      else c # code_points (d # cs))"

definition utf8_bytes :: "nat \<Rightarrow> nat list" where
  "utf8_bytes n =
     (if n < 0x80 then [n]
      else if n < 0x800 then [0xC0 + n div 0x40, 0x80 + n mod 0x40]
      else if n < 0x10000 then
        [0xE0 + n div 0x1000, 0x80 + n div 0x40 mod 0x40, 0x80 + n mod 0x40]
      else
        [0xF0 + n div 0x40000, 0x80 + n div 0x1000 mod 0x40, 0x80 + n div 0x40 mod 0x40,
         0x80 + n mod 0x40])"

definition utf8 :: "jsstring \<Rightarrow> nat list" where
  "utf8 s = concat (map utf8_bytes (code_points s))"

text \<open>
  \<^verbatim>\<open>ORDER BY collection, CAST(id AS INTEGER) ASC\<close>: the rows sorted by the pair, the
  collection compared byte by byte in UTF-8 (the order of lists is the lexicographic
  one). Rows with equal keys stay in rowid order.
\<close>

definition order_key :: "hadith_row \<Rightarrow> nat list \<times> int" where
  "order_key r = (utf8 (h_collection r), cast_integer (h_id r))"

definition order_by_collection_id :: "hadith_row list \<Rightarrow> hadith_row list" where
  "order_by_collection_id rs = sort_key order_key rs"

text \<open>A unique index on \<^verbatim>\<open>uid\<close> admits any number of NULLs and no two equal texts.\<close>

definition uid_unique :: "hadith_row list \<Rightarrow> bool" where
  "uid_unique rs \<longleftrightarrow> distinct (filter (\<lambda>u. u \<noteq> None) (map h_uid rs))"

definition insert_or_ignore_collection :: "collection_row list \<Rightarrow> collection_row \<Rightarrow> collection_row list" where
  "insert_or_ignore_collection cs r = (if c_id r \<in> set (map c_id cs) then cs else cs @ [r])"

text \<open>The values of \<^verbatim>\<open>SELECT DISTINCT collection FROM hadith\<close>, in the order SQLite gives them.\<close>

definition distinct_collections :: "hadith_tbl \<Rightarrow> jsstring list" where
  "distinct_collections h =
     (if idx_hadith_collection h then sort_key utf8 (remdups (map h_collection (h_rows h)))
      else rev (remdups (rev (map h_collection (h_rows h)))))"

definition table_columns :: "db \<Rightarrow> string \<Rightarrow> string list" where
  "table_columns d t =
     (if t = ''hadith'' then
        (case hadith_table d of
           None \<Rightarrow> []
         | Some h \<Rightarrow> [''id'', ''collection'', ''text_ar'', ''text_norm'', ''tokens_json'', ''search_keys'']
                     @ (if has_uid h then [''uid''] else []))
      else if t = ''meta'' then
        (case meta_table d of None \<Rightarrow> [] | Some _ \<Rightarrow> [''key'', ''value''])
      else if t = ''collections'' then
        (case collections_table d of None \<Rightarrow> [] | Some _ \<Rightarrow> [''id'', ''name'', ''version'', ''description''])
      else if t = ''user_selected_collections'' then
        (case user_selected_collections_table d of None \<Rightarrow> [] | Some _ \<Rightarrow> [''id''])
      else [])"

text \<open>
  What a statement does to the database it runs on: \<open>None\<close> when the engine refuses
  it (a table or column that does not exist, a column that exists already, a unique
  index that the rows violate), and otherwise the rows it returns and the database it
  leaves.
\<close>

fun exec_db :: "sql \<Rightarrow> db \<Rightarrow> (sql_row list \<times> db) option" where
  "exec_db (PragmaTableInfo t) d = Some (map RColumn (table_columns d t), d)"
| "exec_db CreateTableMeta d =
     Some ([], if meta_table d = None then d\<lparr>meta_table := Some []\<rparr> else d)"
| "exec_db CreateTableCollections d =
     Some ([], if collections_table d = None then d\<lparr>collections_table := Some []\<rparr> else d)"
| "exec_db CreateTableHadith d =
     Some ([], if hadith_table d = None
               then d\<lparr>hadith_table := Some \<lparr>has_uid = False, idx_hadith_collection = False,
                      idx_hadith_search = False, idx_hadith_uid = False, h_rows = []\<rparr>\<rparr>
               else d)"
| "exec_db AlterHadithAddUid d =
     (case hadith_table d of
        None \<Rightarrow> None
      | Some h \<Rightarrow>
          if has_uid h then None
          else Some ([], d\<lparr>hadith_table :=
                 Some (h\<lparr>has_uid := True, h_rows := map (\<lambda>r. r\<lparr>h_uid := None\<rparr>) (h_rows h)\<rparr>)\<rparr>))"
| "exec_db UpdateHadithUid d =
     (case hadith_table d of
        None \<Rightarrow> None
      | Some h \<Rightarrow>
          if \<not> has_uid h then None
          else
            let rs = map (\<lambda>r. if h_uid r = None
                               then r\<lparr>h_uid := Some (h_collection r @ js '':'' @ h_id r)\<rparr>
                               else r) (h_rows h)
            in if idx_hadith_uid h \<and> \<not> uid_unique rs then None
               else Some ([], d\<lparr>hadith_table := Some (h\<lparr>h_rows := rs\<rparr>)\<rparr>))"
| "exec_db CreateIndexCollection d =
     (case hadith_table d of
        None \<Rightarrow> None
      | Some h \<Rightarrow> Some ([], d\<lparr>hadith_table := Some (h\<lparr>idx_hadith_collection := True\<rparr>)\<rparr>))"
| "exec_db CreateIndexSearch d =
     (case hadith_table d of
        None \<Rightarrow> None
      | Some h \<Rightarrow> Some ([], d\<lparr>hadith_table := Some (h\<lparr>idx_hadith_search := True\<rparr>)\<rparr>))"
| "exec_db CreateUniqueIndexUid d =
     (case hadith_table d of
        None \<Rightarrow> None
      | Some h \<Rightarrow>
          if idx_hadith_uid h then Some ([], d)
          else if \<not> has_uid h \<or> \<not> uid_unique (h_rows h) then None
          else Some ([], d\<lparr>hadith_table := Some (h\<lparr>idx_hadith_uid := True\<rparr>)\<rparr>))"
| "exec_db CreateTableUserSelectedCollections d =
     Some ([], if user_selected_collections_table d = None
               then d\<lparr>user_selected_collections_table := Some []\<rparr> else d)"
| "exec_db BackfillCollections d =
     (case (collections_table d, hadith_table d) of
        (Some cs, Some h) \<Rightarrow>
          Some ([], d\<lparr>collections_table :=
            Some (foldl insert_or_ignore_collection cs
              (map (\<lambda>c. \<lparr>c_id = c, c_name = c, c_version = None, c_description = None\<rparr>)
                (distinct_collections h)))\<rparr>)
      | _ \<Rightarrow> None)"
| "exec_db SelectSeeded d =
     (case meta_table d of
        None \<Rightarrow> None
      | Some m \<Rightarrow> Some (map (\<lambda>kv. RValue (snd kv)) (filter (\<lambda>kv. fst kv = js ''seeded'') m), d))"
| "exec_db CountHadith d =
     (case hadith_table d of
        None \<Rightarrow> None
      | Some h \<Rightarrow> Some ([RCount (length (h_rows h))], d))"
| "exec_db ReplaceMetaSeeded d =
     (case meta_table d of
        None \<Rightarrow> None
      | Some m \<Rightarrow>
          Some ([], d\<lparr>meta_table :=
            Some (filter (\<lambda>kv. fst kv \<noteq> js ''seeded'') m @ [(js ''seeded'', Some (js ''1''))])\<rparr>))"
| "exec_db (InsertOrIgnoreCollection i n v ds) d =
     (case collections_table d of
        None \<Rightarrow> None
      | Some cs \<Rightarrow>
          Some ([], d\<lparr>collections_table :=
            Some (insert_or_ignore_collection cs
              \<lparr>c_id = i, c_name = n, c_version = v, c_description = ds\<rparr>)\<rparr>))"
| "exec_db (InsertOrReplaceHadith i c ar norm tj sk u) d =
     (case hadith_table d of
        None \<Rightarrow> None
      | Some h \<Rightarrow>
          if \<not> has_uid h then None
          else Some ([], d\<lparr>hadith_table := Some (h\<lparr>h_rows :=
                 (if idx_hadith_uid h then filter (\<lambda>r. h_uid r \<noteq> Some u) (h_rows h) else h_rows h)
                 @ [\<lparr>h_id = i, h_collection = c, h_text_ar = ar, h_text_norm = norm,
                      h_tokens_json = tj, h_search_keys = sk, h_uid = Some u\<rparr>]\<rparr>)\<rparr>))"
| "exec_db (SelectHadithLike pat) d =
     (case hadith_table d of
        None \<Rightarrow> None
      | Some h \<Rightarrow>
          Some (map RHadith
                  (take 100 (order_by_collection_id
                    (filter (\<lambda>r. sql_like pat (h_search_keys r)) (h_rows h)))), d))"
| "exec_db Begin d = None"
| "exec_db Commit d = None"
| "exec_db Rollback d = None"
| "exec_db PragmaJournalModeWal d = None"
| "exec_db PragmaForeignKeysOn d = None"

section \<open>client.ts\<close>

text \<open>
  The world of the program: the database file, the working copy of a transaction that is
  open on the one cached connection (\<open>None\<close> outside a transaction), the two settings
  of the connection, and what the logger has written. The connection is taken to be
  open: \<^verbatim>\<open>getDatabaseConnection\<close> returns the cached handle. Statements read and write the
  working copy when a transaction is open and the file otherwise; \<^verbatim>\<open>COMMIT\<close> writes
  the working copy to the file, \<^verbatim>\<open>ROLLBACK\<close> drops it, and so does the engine when
  it rolls the transaction back on its own.
\<close>

datatype log_msg =
    SqlFailed sql
  | TransactionFailed
  | MigrationOK
  | SeedSkippedFlag
  | SeedSkippedPopulated
  | SeedInsertFailed jsstring jsstring
  | SeedCompleted nat nat

datatype log_entry = INFO log_msg | WARN log_msg | ERROR log_msg

record world =
  disk :: db
  txn :: "db option"
  journal_wal :: bool
  foreign_keys :: bool
  console :: "log_entry list"

text \<open>
  What the program does not decide: which statements the engine fails on for a reason
  outside the model (\<open>faulty\<close>: a fault of the storage, a constraint of a table that
  an earlier version made), for which of these failures it also rolls the open
  transaction back on its own (\<open>rolls_back\<close>: a full disk, an I/O error), and the
  build flag \<^verbatim>\<open>__DEV__\<close>.
\<close>

record env =
  faulty :: "sql \<Rightarrow> bool"
  rolls_back :: "sql \<Rightarrow> bool"
  dev :: bool

type_synonym 'a io = "world \<Rightarrow> (error + 'a) \<times> world"

definition cur :: "world \<Rightarrow> db" where
  "cur w = (case txn w of None \<Rightarrow> disk w | Some d \<Rightarrow> d)"

definition put :: "db \<Rightarrow> world \<Rightarrow> world" where
  "put d w = (case txn w of None \<Rightarrow> w\<lparr>disk := d\<rparr> | Some _ \<Rightarrow> w\<lparr>txn := Some d\<rparr>)"

text \<open>
  The world after a fault of the engine on the statement \<open>s\<close>: the open transaction is
  rolled back when the fault is of that kind, and nothing else changes.
\<close>

definition aborted :: "env \<Rightarrow> sql \<Rightarrow> world \<Rightarrow> world" where
  "aborted e s w = (if rolls_back e s then w\<lparr>txn := None\<rparr> else w)"

text \<open>
  \<^verbatim>\<open>connection.execute(sql, params)\<close>. A statement that fails writes nothing.
  \<^verbatim>\<open>ROLLBACK\<close> fails only when no transaction is open, \<^verbatim>\<open>BEGIN\<close> fails inside a
  transaction and \<^verbatim>\<open>COMMIT\<close> outside one. A statement that the engine refuses for what
  the database holds (the \<open>None\<close> of \<open>exec_db\<close>) leaves the transaction open.
\<close>

definition execute :: "env \<Rightarrow> sql \<Rightarrow> world \<Rightarrow> (error + sql_row list) \<times> world" where
  "execute e s w =
     (if s = Rollback then
        (case txn w of None \<Rightarrow> (Inl EngineError, w) | Some _ \<Rightarrow> (Inr [], w\<lparr>txn := None\<rparr>))
      else if faulty e s then (Inl EngineError, aborted e s w)
      else if s = Begin then
        (case txn w of None \<Rightarrow> (Inr [], w\<lparr>txn := Some (disk w)\<rparr>) | Some _ \<Rightarrow> (Inl EngineError, w))
      else if s = Commit then
        (case txn w of None \<Rightarrow> (Inl EngineError, w) | Some d \<Rightarrow> (Inr [], w\<lparr>disk := d, txn := None\<rparr>))
      else if s = PragmaJournalModeWal then
        (case txn w of None \<Rightarrow> (Inr [], w\<lparr>journal_wal := True\<rparr>) | Some _ \<Rightarrow> (Inl EngineError, w))
      else if s = PragmaForeignKeysOn then
        (case txn w of None \<Rightarrow> (Inr [], w\<lparr>foreign_keys := True\<rparr>) | Some _ \<Rightarrow> (Inr [], w))
      else
        (case exec_db s (cur w) of
           None \<Rightarrow> (Inl EngineError, w)
         | Some (rs, d) \<Rightarrow> (Inr rs, put d w)))"

text \<open>logger.ts: info and warn write in a development build only, error always.\<close>

definition log_info :: "env \<Rightarrow> log_msg \<Rightarrow> world \<Rightarrow> world" where
  "log_info e m w = (if dev e then w\<lparr>console := console w @ [INFO m]\<rparr> else w)"

definition log_warn :: "env \<Rightarrow> log_msg \<Rightarrow> world \<Rightarrow> world" where
  "log_warn e m w = (if dev e then w\<lparr>console := console w @ [WARN m]\<rparr> else w)"

definition log_error :: "log_msg \<Rightarrow> world \<Rightarrow> world" where
  "log_error m w = w\<lparr>console := console w @ [ERROR m]\<rparr>"

text \<open>Sequencing: an error of the first computation is thrown past the second.\<close>

definition bind_io :: "'a io \<Rightarrow> ('a \<Rightarrow> 'b io) \<Rightarrow> 'b io" where
  "bind_io m f w = (case m w of (Inl err, w') \<Rightarrow> (Inl err, w') | (Inr x, w') \<Rightarrow> f x w')"

definition return_io :: "'a \<Rightarrow> 'a io" where
  "return_io x w = (Inr x, w)"

definition runSql :: "env \<Rightarrow> sql \<Rightarrow> sql_row list io" where
  "runSql e s w =
     (case execute e s w of
        (Inl err, w') \<Rightarrow> (Inl (DBError ''SQL execution failed.''), log_error (SqlFailed s) w')
      | (Inr rs, w') \<Rightarrow> (Inr rs, w'))"

definition transaction_failed :: "env \<Rightarrow> world \<Rightarrow> (error + 'a) \<times> world" where
  "transaction_failed e w =
     (Inl (DBError ''Database transaction failed.''),
      log_error TransactionFailed (snd (execute e Rollback w)))"

definition runTransaction :: "env \<Rightarrow> 'a io \<Rightarrow> 'a io" where
  "runTransaction e doWork w =
     (case execute e Begin w of
        (Inl err, w1) \<Rightarrow> transaction_failed e w1
      | (Inr _, w1) \<Rightarrow>
          (case doWork w1 of
             (Inl err, w2) \<Rightarrow> transaction_failed e w2
           | (Inr result, w2) \<Rightarrow>
               (case execute e Commit w2 of
                  (Inl err, w3) \<Rightarrow> transaction_failed e w3
                | (Inr _, w3) \<Rightarrow> (Inr result, w3))))"

section \<open>migrate.ts\<close>

definition columnExists :: "env \<Rightarrow> string \<Rightarrow> string \<Rightarrow> bool io" where
  "columnExists e table column =
     bind_io (runSql e (PragmaTableInfo table))
       (\<lambda>rs. return_io (list_ex (\<lambda>r. r = RColumn column) rs))"

text \<open>A run of \<^verbatim>\<open>runSql\<close> calls whose results are not used.\<close>

fun runSql_each :: "env \<Rightarrow> sql list \<Rightarrow> unit io" where
  "runSql_each e [] = return_io ()"
| "runSql_each e (s # ss) = bind_io (runSql e s) (\<lambda>_. runSql_each e ss)"

definition migration_work :: "env \<Rightarrow> unit io" where
  "migration_work e =
     bind_io (runSql_each e [CreateTableMeta, CreateTableCollections, CreateTableHadith])
       (\<lambda>_. bind_io (columnExists e ''hadith'' ''uid'')
         (\<lambda>ex. bind_io (if \<not> ex then runSql_each e [AlterHadithAddUid, UpdateHadithUid]
                         else return_io ())
           (\<lambda>_. runSql_each e
                  [CreateIndexCollection, CreateIndexSearch, CreateUniqueIndexUid,
                   CreateTableUserSelectedCollections, BackfillCollections])))"

definition runMigrations :: "env \<Rightarrow> unit io" where
  "runMigrations e =
     bind_io (runSql_each e [PragmaJournalModeWal, PragmaForeignKeysOn])
       (\<lambda>_. bind_io (runTransaction e (migration_work e))
         (\<lambda>_ w. (Inr (), log_info e MigrationOK w)))"

section \<open>hadith.ts\<close>

record seed_item =
  s_id :: jsstring
  s_collection :: jsstring
  s_text_ar :: jsstring
  s_tokens :: "jsstring list option"

text \<open>A string is truthy when it is not empty.\<close>

definition isValidSeedItem :: "seed_item \<Rightarrow> bool" where
  "isValidSeedItem item \<longleftrightarrow> s_id item \<noteq> [] \<and> s_collection item \<noteq> [] \<and> s_text_ar item \<noteq> []"

definition or_else :: "jsstring option \<Rightarrow> jsstring \<Rightarrow> jsstring" where
  "or_else x y = (case x of None \<Rightarrow> y | Some s \<Rightarrow> if s = [] then y else s)"

definition or_null :: "jsstring option \<Rightarrow> jsstring option" where
  "or_null x = (case x of None \<Rightarrow> None | Some s \<Rightarrow> if s = [] then None else Some s)"

definition upsertCollection ::
  "env \<Rightarrow> jsstring \<Rightarrow> jsstring option \<Rightarrow> jsstring option \<Rightarrow> jsstring option \<Rightarrow> sql_row list io" where
  "upsertCollection e collectionId displayName version description =
     runSql e (InsertOrIgnoreCollection collectionId (or_else displayName collectionId)
                 (or_null version) (or_null description))"

text \<open>
  \<^verbatim>\<open>JSON.stringify\<close> of an array of strings: quotes, backslashes and control
  characters are escaped, and so is a surrogate that is not part of a pair.
\<close>

definition hex_digit :: "nat \<Rightarrow> jschar" where
  "hex_digit n = (if n < 10 then 0x30 + n else 0x57 + n)"

definition unicode_escape :: "jschar \<Rightarrow> jsstring" where
  "unicode_escape c =
     [0x5C, 0x75, hex_digit (c div 4096 mod 16), hex_digit (c div 256 mod 16),
      hex_digit (c div 16 mod 16), hex_digit (c mod 16)]"

definition json_char :: "jschar \<Rightarrow> jsstring" where
  "json_char c =
     (if c = 0x22 then [0x5C, 0x22]
      else if c = 0x5C then [0x5C, 0x5C]
      else if c = 8 then [0x5C, 0x62]
      else if c = 9 then [0x5C, 0x74]
      else if c = 10 then [0x5C, 0x6E]
      else if c = 12 then [0x5C, 0x66]
      else if c = 13 then [0x5C, 0x72]
      else if c < 0x20 \<or> (0xD800 \<le> c \<and> c \<le> 0xDFFF) then unicode_escape c
      else [c])"

fun json_quote :: "jsstring \<Rightarrow> jsstring" where
  "json_quote [] = []"
| "json_quote [c] = json_char c"
| "json_quote (c # d # cs) =
     (if 0xD800 \<le> c \<and> c \<le> 0xDBFF \<and> 0xDC00 \<le> d \<and> d \<le> 0xDFFF
      then c # d # json_quote cs
      else json_char c @ json_quote (d # cs))"

fun join_comma :: "jsstring list \<Rightarrow> jsstring" where
  "join_comma [] = []"
| "join_comma [t] = t"
| "join_comma (t # ts) = t @ [0x2C] @ join_comma ts"

definition JSON_stringify :: "jsstring list \<Rightarrow> jsstring" where
  "JSON_stringify ts = [0x5B] @ join_comma (map (\<lambda>t. [0x22] @ json_quote t @ [0x22]) ts) @ [0x5D]"

text \<open>
  The body of the \<^verbatim>\<open>try\<close> block of the seeding loop up to the statement it sends.
\<close>

definition normalizedTokens :: "seed_item \<Rightarrow> jsstring list" where
  "normalizedTokens item =
     (case (case s_tokens item of
              None \<Rightarrow> None
            | Some ts \<Rightarrow> if length ts > 0 then Some ts else None) of
        Some providedTokens \<Rightarrow> filter_Boolean (map normalizeArabicText providedTokens)
      | None \<Rightarrow> tokenizeArabicText (s_text_ar item))"

definition insert_statement :: "seed_item \<Rightarrow> sql" where
  "insert_statement item =
     (let normalizedText = normalizeArabicText (s_text_ar item);
          tokensJson = JSON_stringify (normalizedTokens item);
          searchKeys = tokensToSearchKeys (normalizedTokens item);
          uid = s_collection item @ js '':'' @ s_id item
      in InsertOrReplaceHadith (s_id item) (s_collection item) (s_text_ar item)
           normalizedText tokensJson searchKeys uid)"

text \<open>
  The loop of the seeding transaction, with the two counters \<open>(inserted, skipped)\<close>.
  The \<^verbatim>\<open>catch\<close> of a row's failure is the \<open>Inl\<close> branch.
\<close>

fun seed_loop :: "env \<Rightarrow> seed_item list \<Rightarrow> nat \<times> nat \<Rightarrow> world \<Rightarrow> (nat \<times> nat) \<times> world" where
  "seed_loop e [] counts w = (counts, w)"
| "seed_loop e (item # items) (inserted, skipped) w =
     (if \<not> isValidSeedItem item then seed_loop e items (inserted, skipped + 1) w
      else
        (case runSql e (insert_statement item) w of
           (Inr _, w') \<Rightarrow> seed_loop e items (inserted + 1, skipped) w'
         | (Inl err, w') \<Rightarrow>
             seed_loop e items (inserted, skipped + 1)
               (log_warn e (SeedInsertFailed (s_id item) (s_collection item)) w')))"

definition seed_work :: "env \<Rightarrow> seed_item list \<Rightarrow> (nat \<times> nat) io" where
  "seed_work e items w =
     (case seed_loop e items (0, 0) w of
        (counts, w') \<Rightarrow> bind_io (runSql e ReplaceMetaSeeded) (\<lambda>_. return_io counts) w')"

text \<open>\<^verbatim>\<open>Array.from(new Set(xs))\<close>: the distinct values in the order of first occurrence.\<close>

definition unique_in_order :: "'a list \<Rightarrow> 'a list" where
  "unique_in_order xs = rev (remdups (rev xs))"

fun upsert_each :: "env \<Rightarrow> jsstring list \<Rightarrow> unit io" where
  "upsert_each e [] = return_io ()"
| "upsert_each e (col # cols) =
     bind_io (upsertCollection e col None None None) (\<lambda>_. upsert_each e cols)"

text \<open>
  The seed data is the JSON file \<^verbatim>\<open>seed-lite.json\<close>, which is not among the sources:
  it is a parameter, a list of items of the type \<^verbatim>\<open>SeedItem\<close>. \<^verbatim>\<open>SqlResult\<close>
  declares \<^verbatim>\<open>rows\<close> as an array, and it is read as one.
\<close>

definition seedDatabaseIfEmpty :: "env \<Rightarrow> seed_item list \<Rightarrow> unit io" where
  "seedDatabaseIfEmpty e seedData =
     bind_io (runSql e SelectSeeded)
       (\<lambda>rs.
          let seededFlag = (case rs of RValue v # _ \<Rightarrow> v | _ \<Rightarrow> None) in
          if seededFlag = Some (js ''1'') then (\<lambda>w. (Inr (), log_info e SeedSkippedFlag w))
          else
            bind_io (runSql e CountHadith)
              (\<lambda>rs2.
                 let existingCount = (case rs2 of RCount n # _ \<Rightarrow> n | _ \<Rightarrow> 0) in
                 if existingCount > 0 then
                   bind_io (runSql e ReplaceMetaSeeded)
                     (\<lambda>_ w. (Inr (), log_info e SeedSkippedPopulated w))
                 else
                   bind_io (upsert_each e
                              (unique_in_order (map s_collection (filter isValidSeedItem seedData))))
                     (\<lambda>_. bind_io (runTransaction e (seed_work e seedData))
                       (\<lambda>counts w.
                          (Inr (), log_info e (SeedCompleted (fst counts) (snd counts)) w)))))"

definition hadith_rows :: "sql_row list \<Rightarrow> hadith_row list" where
  "hadith_rows rs = concat (map (\<lambda>r. case r of RHadith h \<Rightarrow> [h] | _ \<Rightarrow> []) rs)"

definition searchHadithByText :: "env \<Rightarrow> jsstring \<Rightarrow> hadith_row list io" where
  "searchHadithByText e queryText =
     (let q = normalizeArabicText queryText in
      bind_io (runSql e (SelectHadithLike (js ''%'' @ q @ js ''%'')))
        (\<lambda>rs. return_io (hadith_rows rs)))"

section \<open>Notions for the statements\<close>

subsection \<open>Text\<close>

text \<open>
  The normalizer before its trim; a string with no whitespace at either end; the
  characters that no step of the normalizer changes; what the three replacements do to
  one character; the characters of a word that the normalizer keeps; and the characters
  that stand for themselves in a \<^verbatim>\<open>LIKE\<close> pattern.
\<close>

definition normalize_core :: "jsstring \<Rightarrow> jsstring" where
  "normalize_core s =
     filter (\<lambda>c. in_arabic_block c \<or> is_space c)
       (map marbuta_to_ha
         (map maqsura_to_ya
           (map unify_alef
             (filter (\<lambda>c. c \<noteq> 0x0640)
               (filter (\<lambda>c. \<not> (0x064B \<le> c \<and> c \<le> 0x065F)) s)))))"

definition trimmed :: "jsstring \<Rightarrow> bool" where
  "trimmed s \<longleftrightarrow> s = [] \<or> (\<not> is_space (hd s) \<and> \<not> is_space (last s))"

definition stable_char :: "jschar \<Rightarrow> bool" where
  "stable_char c \<longleftrightarrow>
     (in_arabic_block c \<or> is_space c) \<and> \<not> (0x064B \<le> c \<and> c \<le> 0x065F) \<and>
     c \<noteq> 0x0640 \<and> c \<noteq> 0x0625 \<and> c \<noteq> 0x0623 \<and> c \<noteq> 0x0622 \<and> c \<noteq> 0x0649 \<and>
     c \<noteq> 0x0629"

definition fold_letter :: "jschar \<Rightarrow> jschar" where
  "fold_letter c = marbuta_to_ha (maqsura_to_ya (unify_alef c))"

definition kept_letter :: "jschar \<Rightarrow> bool" where
  "kept_letter c \<longleftrightarrow> in_arabic_block c \<and> \<not> is_diacritic c \<and> \<not> is_tatweel c"

definition plain_char :: "jschar \<Rightarrow> bool" where
  "plain_char c \<longleftrightarrow>
     c \<noteq> 0x25 \<and> c \<noteq> 0x5F \<and> \<not> (0x41 \<le> c \<and> c \<le> 0x5A) \<and> \<not> (0x61 \<le> c \<and> c \<le> 0x7A)"

text \<open>The decimal numeral of a natural number, as \<^verbatim>\<open>String(n)\<close> writes it.\<close>

fun decimal :: "nat \<Rightarrow> jsstring" where
  "decimal n = (if n < 10 then [0x30 + n] else decimal (n div 10) @ [0x30 + n mod 10])"

declare decimal.simps [simp del]

subsection \<open>Statements, worlds and environments\<close>

text \<open>
  The statements that act on the tables; a world inside a transaction that began on the
  file \<open>D\<close>; a property of the world that a computation keeps whatever it returns; a
  computation that, inside a transaction begun on the file \<open>D\<close>, leaves the file as it
  is and returns with the transaction still open (\<open>txn_safe\<close>); what a failed
  \<^verbatim>\<open>runSql\<close> returns, after a fault of the engine (\<open>sql_failed\<close>) and after a refusal
  (\<open>sql_refused\<close>); and short names for changes of the world and for environments: no
  fault at all, a fault on one statement, a fault on the insert of one item that leaves
  the transaction open (\<open>rejecting\<close>), and one that rolls it back (\<open>disk_full_at\<close>).
\<close>

definition is_db_stmt :: "sql \<Rightarrow> bool" where
  "is_db_stmt s \<longleftrightarrow>
     s \<noteq> Begin \<and> s \<noteq> Commit \<and> s \<noteq> Rollback \<and> s \<noteq> PragmaJournalModeWal \<and>
     s \<noteq> PragmaForeignKeysOn"

definition in_txn :: "db \<Rightarrow> world \<Rightarrow> bool" where
  "in_txn D w \<longleftrightarrow> txn w \<noteq> None \<and> disk w = D"

definition preserves :: "(world \<Rightarrow> bool) \<Rightarrow> 'a io \<Rightarrow> bool" where
  "preserves P m \<longleftrightarrow> (\<forall>w r w'. P w \<longrightarrow> m w = (r, w') \<longrightarrow> P w')"

definition txn_safe :: "db \<Rightarrow> 'a io \<Rightarrow> bool" where
  "txn_safe D m \<longleftrightarrow>
     (\<forall>w r w'. in_txn D w \<longrightarrow> m w = (r, w') \<longrightarrow>
        disk w' = D \<and> (\<forall>x. r = Inr x \<longrightarrow> txn w' \<noteq> None))"

definition set_pragmas :: "world \<Rightarrow> world" where
  "set_pragmas w = w\<lparr>journal_wal := True, foreign_keys := True\<rparr>"

definition add_logs :: "log_entry list \<Rightarrow> world \<Rightarrow> world" where
  "add_logs ls w = w\<lparr>console := console w @ ls\<rparr>"

definition sql_failed :: "env \<Rightarrow> sql \<Rightarrow> world \<Rightarrow> (error + unit) \<times> world" where
  "sql_failed e s w =
     (Inl (DBError ''SQL execution failed.''), log_error (SqlFailed s) (aborted e s w))"

definition sql_refused :: "sql \<Rightarrow> world \<Rightarrow> (error + unit) \<times> world" where
  "sql_refused s w = (Inl (DBError ''SQL execution failed.''), log_error (SqlFailed s) w)"

definition no_faults :: "bool \<Rightarrow> env" where
  "no_faults d = \<lparr>faulty = (\<lambda>_. False), rolls_back = (\<lambda>_. False), dev = d\<rparr>"

definition failing_on :: "sql \<Rightarrow> env" where
  "failing_on s = \<lparr>faulty = (\<lambda>x. x = s), rolls_back = (\<lambda>_. False), dev = False\<rparr>"

definition rejecting :: "seed_item \<Rightarrow> env" where
  "rejecting item =
     \<lparr>faulty = (\<lambda>s. s = insert_statement item), rolls_back = (\<lambda>_. False), dev = True\<rparr>"

definition disk_full_at :: "seed_item \<Rightarrow> env" where
  "disk_full_at item =
     \<lparr>faulty = (\<lambda>s. s = insert_statement item),
      rolls_back = (\<lambda>s. s = insert_statement item), dev = True\<rparr>"

subsection \<open>The migration as a function of the database\<close>

text \<open>
  \<open>migrate_db\<close> is what the statements of \<^verbatim>\<open>runMigrations\<close> do to a database when the
  engine has no fault of its own, \<open>None\<close> when one of them is refused. \<open>migrated\<close>
  describes a database after a migration, \<open>migratable\<close> one on which the migration
  goes through, and \<open>uid_index_sound\<close> says that the rows under the unique index have
  distinct \<^verbatim>\<open>uid\<close>s.
\<close>

fun exec_all :: "sql list \<Rightarrow> db \<Rightarrow> db option" where
  "exec_all [] d = Some d"
| "exec_all (s # ss) d = (case exec_db s d of None \<Rightarrow> None | Some (rs, d') \<Rightarrow> exec_all ss d')"

definition migrate_db :: "db \<Rightarrow> db option" where
  "migrate_db d =
     (case exec_all [CreateTableMeta, CreateTableCollections, CreateTableHadith] d of
        None \<Rightarrow> None
      | Some d1 \<Rightarrow>
          (case (if ''uid'' \<notin> set (table_columns d1 ''hadith'')
                 then exec_all [AlterHadithAddUid, UpdateHadithUid] d1 else Some d1) of
             None \<Rightarrow> None
           | Some d2 \<Rightarrow>
               exec_all [CreateIndexCollection, CreateIndexSearch, CreateUniqueIndexUid,
                         CreateTableUserSelectedCollections, BackfillCollections] d2))"


definition tables3 :: "db \<Rightarrow> bool" where
  "tables3 d \<longleftrightarrow> meta_table d \<noteq> None \<and> collections_table d \<noteq> None \<and> hadith_table d \<noteq> None"

definition migrated :: "db \<Rightarrow> bool" where
  "migrated d \<longleftrightarrow>
     meta_table d \<noteq> None \<and> user_selected_collections_table d \<noteq> None \<and>
     (case (collections_table d, hadith_table d) of
        (Some cs, Some h) \<Rightarrow>
          has_uid h \<and> idx_hadith_collection h \<and> idx_hadith_search h \<and> idx_hadith_uid h \<and>
          h_collection ` set (h_rows h) \<subseteq> c_id ` set cs
      | _ \<Rightarrow> False)"





definition uid_index_sound :: "db \<Rightarrow> bool" where
  "uid_index_sound d =
     (case hadith_table d of
        None \<Rightarrow> True
      | Some h \<Rightarrow> \<not> idx_hadith_uid h \<or> uid_unique (h_rows h))"

subsection \<open>The seeding as a function of the database\<close>

text \<open>
  The row that the insert of an item writes, the items whose insert goes through
  (\<open>accepted\<close>), the rows the loop leaves (\<open>seeded_rows\<close>), what it logs, the value of
  the flag, and the world after a fresh import (\<open>seeded_world\<close>). \<open>rollback_free\<close>
  says that no insert of the seed data fails in the way that makes the engine roll the
  transaction back, and \<open>seed_faultless\<close> that nothing fails but inserts of rows, and
  these without a rollback. \<open>fresh_seedable\<close>
  is a world on which the fresh import runs: no transaction open, the tables present,
  the flag unset and the hadith table empty. \<open>fresh_import\<close> is the third part of
  \<^verbatim>\<open>seedDatabaseIfEmpty\<close>, after its two early returns.
\<close>

definition uid_of :: "seed_item \<Rightarrow> jsstring" where
  "uid_of item = s_collection item @ js '':'' @ s_id item"

definition row_of :: "seed_item \<Rightarrow> hadith_row" where
  "row_of item =
     \<lparr>h_id = s_id item, h_collection = s_collection item, h_text_ar = s_text_ar item,
      h_text_norm = normalizeArabicText (s_text_ar item),
      h_tokens_json = JSON_stringify (normalizedTokens item),
      h_search_keys = tokensToSearchKeys (normalizedTokens item),
      h_uid = Some (uid_of item)\<rparr>"

definition accepted :: "env \<Rightarrow> seed_item \<Rightarrow> bool" where
  "accepted e item \<longleftrightarrow> isValidSeedItem item \<and> \<not> faulty e (insert_statement item)"

definition upsert_row :: "bool \<Rightarrow> hadith_row list \<Rightarrow> hadith_row \<Rightarrow> hadith_row list" where
  "upsert_row uniq rs r = (if uniq then filter (\<lambda>x. h_uid x \<noteq> h_uid r) rs else rs) @ [r]"

definition seeded_rows :: "env \<Rightarrow> bool \<Rightarrow> seed_item list \<Rightarrow> hadith_row list \<Rightarrow> hadith_row list" where
  "seeded_rows e uniq items rs =
     foldl (\<lambda>acc item. if accepted e item then upsert_row uniq acc (row_of item) else acc) rs items"

definition seed_logs :: "env \<Rightarrow> seed_item list \<Rightarrow> log_entry list" where
  "seed_logs e items =
     concat (map (\<lambda>item.
       if isValidSeedItem item \<and> faulty e (insert_statement item)
       then ERROR (SqlFailed (insert_statement item)) #
            (if dev e then [WARN (SeedInsertFailed (s_id item) (s_collection item))] else [])
       else []) items)"

definition seeded_flag :: "db \<Rightarrow> jsstring option" where
  "seeded_flag d =
     (case meta_table d of
        None \<Rightarrow> None
      | Some m \<Rightarrow> (case filter (\<lambda>kv. fst kv = js ''seeded'') m of [] \<Rightarrow> None | kv # _ \<Rightarrow> snd kv))"

definition with_rows :: "hadith_row list \<Rightarrow> db \<Rightarrow> db" where
  "with_rows rs d =
     (case hadith_table d of
        None \<Rightarrow> d
      | Some h \<Rightarrow> d\<lparr>hadith_table := Some (h\<lparr>h_rows := rs\<rparr>)\<rparr>)"

definition mark_seeded :: "db \<Rightarrow> db" where
  "mark_seeded d =
     (case meta_table d of
        None \<Rightarrow> d
      | Some m \<Rightarrow> d\<lparr>meta_table :=
          Some (filter (\<lambda>kv. fst kv \<noteq> js ''seeded'') m @ [(js ''seeded'', Some (js ''1''))])\<rparr>)"

definition seed_collections :: "seed_item list \<Rightarrow> jsstring list" where
  "seed_collections items = unique_in_order (map s_collection (filter isValidSeedItem items))"

definition upsert_statement :: "jsstring \<Rightarrow> sql" where
  "upsert_statement col = InsertOrIgnoreCollection col col None None"

definition with_collections :: "jsstring list \<Rightarrow> db \<Rightarrow> db" where
  "with_collections cols d =
     (case collections_table d of
        None \<Rightarrow> d
      | Some cs \<Rightarrow> d\<lparr>collections_table := Some (foldl insert_or_ignore_collection cs
          (map (\<lambda>c. \<lparr>c_id = c, c_name = c, c_version = None, c_description = None\<rparr>) cols))\<rparr>)"

definition rollback_free :: "env \<Rightarrow> seed_item list \<Rightarrow> bool" where
  "rollback_free e items \<longleftrightarrow>
     \<not> list_ex (\<lambda>item. isValidSeedItem item \<and> faulty e (insert_statement item) \<and>
                       rolls_back e (insert_statement item)) items"

definition seed_faultless :: "env \<Rightarrow> seed_item list \<Rightarrow> bool" where
  "seed_faultless e items \<longleftrightarrow>
     \<not> faulty e SelectSeeded \<and> \<not> faulty e CountHadith \<and>
     \<not> list_ex (\<lambda>c. faulty e (upsert_statement c)) (seed_collections items) \<and>
     \<not> faulty e Begin \<and> \<not> faulty e ReplaceMetaSeeded \<and> \<not> faulty e Commit \<and>
     rollback_free e items"

definition seeded_world :: "env \<Rightarrow> seed_item list \<Rightarrow> world \<Rightarrow> world" where
  "seeded_world e items w =
     add_logs
       (seed_logs e items @
        (if dev e
         then [INFO (SeedCompleted (length (filter (accepted e) items))
                       (length (filter (\<lambda>it. \<not> accepted e it) items)))]
         else []))
       (w\<lparr>disk := mark_seeded
          (with_rows
             (seeded_rows e
                (case hadith_table (disk w) of None \<Rightarrow> False | Some h \<Rightarrow> idx_hadith_uid h)
                items [])
             (with_collections (seed_collections items) (disk w)))\<rparr>)"

definition fresh_seedable :: "world \<Rightarrow> bool" where
  "fresh_seedable w \<longleftrightarrow>
     txn w = None \<and> meta_table (disk w) \<noteq> None \<and> seeded_flag (disk w) \<noteq> Some (js ''1'') \<and>
     collections_table (disk w) \<noteq> None \<and>
     (case hadith_table (disk w) of None \<Rightarrow> False | Some h \<Rightarrow> has_uid h \<and> h_rows h = [])"

definition fresh_import :: "env \<Rightarrow> seed_item list \<Rightarrow> unit io" where
  "fresh_import e seedData =
     bind_io (upsert_each e (unique_in_order (map s_collection (filter isValidSeedItem seedData))))
       (\<lambda>_. bind_io (runTransaction e (seed_work e seedData))
         (\<lambda>counts w. (Inr (), log_info e (SeedCompleted (fst counts) (snd counts)) w)))"

definition seed_untouched :: "db \<Rightarrow> world \<Rightarrow> bool" where
  "seed_untouched d w \<longleftrightarrow>
     txn w = None \<and> meta_table (disk w) = meta_table d \<and> hadith_table (disk w) = hadith_table d"

subsection \<open>Concrete worlds and data\<close>

text \<open>
  A database file that was just created, a table made before \<^verbatim>\<open>uid\<close>, migrated
  stores, and the record of the specification's search example: the text \<open>basmala\<close>
  and the query \<open>bism\<close>.
\<close>

definition empty_db :: db where
  "empty_db = \<lparr>meta_table = None, collections_table = None, hadith_table = None,
               user_selected_collections_table = None\<rparr>"

definition fresh_world :: world where
  "fresh_world = \<lparr>disk = empty_db, txn = None, journal_wal = False, foreign_keys = False,
                   console = []\<rparr>"

definition legacy_row :: hadith_row where
  "legacy_row = \<lparr>h_id = js ''1'', h_collection = js ''Bukhari'', h_text_ar = [0x0628],
     h_text_norm = [0x0628], h_tokens_json = js ''[]'', h_search_keys = [0x0628], h_uid = None\<rparr>"


definition migrated_world :: "hadith_row list \<Rightarrow> collection_row list \<Rightarrow> world" where
  "migrated_world rs cs =
     \<lparr>disk = \<lparr>meta_table = Some [], collections_table = Some cs,
        hadith_table = Some \<lparr>has_uid = True, idx_hadith_collection = True,
          idx_hadith_search = True, idx_hadith_uid = True, h_rows = rs\<rparr>,
        user_selected_collections_table = Some []\<rparr>,
      txn = None, journal_wal = True, foreign_keys = True, console = []\<rparr>"

definition store_world ::
  "(jsstring \<times> jsstring option) list \<Rightarrow> collection_row list \<Rightarrow> hadith_row list \<Rightarrow> world" where
  "store_world m cs rs =
     \<lparr>disk = \<lparr>meta_table = Some m, collections_table = Some cs,
        hadith_table = Some \<lparr>has_uid = True, idx_hadith_collection = True,
          idx_hadith_search = True, idx_hadith_uid = True, h_rows = rs\<rparr>,
        user_selected_collections_table = Some []\<rparr>,
      txn = None, journal_wal = True, foreign_keys = True, console = []\<rparr>"

definition bukhari :: collection_row where
  "bukhari = \<lparr>c_id = js ''Bukhari'', c_name = js ''Bukhari'', c_version = None, c_description = None\<rparr>"

definition seeded_meta :: "(jsstring \<times> jsstring option) list" where
  "seeded_meta = [(js ''seeded'', Some (js ''1''))]"

definition basmala :: jsstring where
  "basmala = [0x0628, 0x0650, 0x0633, 0x0652, 0x0645, 0x0650, 0x20, 0x0627, 0x0644, 0x0644, 0x0647]"

definition bism :: jsstring where
  "bism = [0x0628, 0x0633, 0x0645]"

definition basmala_item :: "jsstring \<Rightarrow> jsstring \<Rightarrow> seed_item" where
  "basmala_item i c = \<lparr>s_id = i, s_collection = c, s_text_ar = basmala, s_tokens = None\<rparr>"

definition basmala_row :: "jsstring \<Rightarrow> jsstring \<Rightarrow> hadith_row" where
  "basmala_row i c =
     \<lparr>h_id = i, h_collection = c, h_text_ar = basmala,
      h_text_norm = [0x0628, 0x0633, 0x0645, 0x20, 0x0627, 0x0644, 0x0644, 0x0647],
      h_tokens_json = [0x5B, 0x22, 0x0628, 0x0633, 0x0645, 0x22, 0x2C,
                       0x22, 0x0627, 0x0644, 0x0644, 0x0647, 0x22, 0x5D],
      h_search_keys = [0x0628, 0x0633, 0x0645, 0x20, 0x0627, 0x0644, 0x0644, 0x0647],
      h_uid = Some (c @ js '':'' @ i)\<rparr>"

definition item1 :: seed_item where
  "item1 = basmala_item (js ''1'') (js ''Bukhari'')"

definition row1 :: hadith_row where
  "row1 = basmala_row (js ''1'') (js ''Bukhari'')"

definition item1_retokenized :: seed_item where
  "item1_retokenized = item1\<lparr>s_tokens := Some [bism]\<rparr>"

definition row1_retokenized :: hadith_row where
  "row1_retokenized =
     row1\<lparr>h_tokens_json := [0x5B, 0x22, 0x0628, 0x0633, 0x0645, 0x22, 0x5D],
          h_search_keys := bism\<rparr>"

definition item2 :: seed_item where
  "item2 = basmala_item (js ''2'') (js ''Bukhari'')"

definition item3 :: seed_item where
  "item3 = basmala_item (js ''3'') (js ''Bukhari'')"

definition row3 :: hadith_row where
  "row3 = basmala_row (js ''3'') (js ''Bukhari'')"

text \<open>
  Rows that are stored out of the order of the search: two collections, the ids 10 and 2
  in one of them, and a row (\<open>legacy_row\<close>) whose search keys do not hold the query
  \<open>bism\<close>; and two rows whose collections are a character above \<open>0xFFFF\<close> (a
  surrogate pair) and the character \<open>0xE000\<close>, which UTF-8 and UTF-16 order
  differently.
\<close>

definition unordered_rows :: "hadith_row list" where
  "unordered_rows =
     [basmala_row (js ''1'') (js ''Muslim''), basmala_row (js ''10'') (js ''Bukhari''),
      legacy_row, basmala_row (js ''2'') (js ''Bukhari'')]"

definition astral_rows :: "hadith_row list" where
  "astral_rows = [basmala_row (js ''1'') [0xD83D, 0xDE00], basmala_row (js ''1'') [0xE000]]"

section \<open>Facts about the text functions\<close>

lemma replace_class_delete: "replace_class cls [] s = filter (\<lambda>c. \<not> cls c) s"
  by (induction s) (simp_all add: replace_class_def)

lemma replace_class_single: "replace_class cls [r] s = map (\<lambda>c. if cls c then r else c) s"
  by (induction s) (simp_all add: replace_class_def)

lemma normalize_pipeline: "normalizeArabicText s = spec_normalize s"
proof -
  have a: "(\<lambda>c. if is_alef_variant c then 0x0627 else c) = unify_alef"
    by (rule ext) (simp add: is_alef_variant_def unify_alef_def)
  have b: "(\<lambda>c. if is_alif_maqsura c then 0x064A else c) = maqsura_to_ya"
    by (rule ext) (simp add: is_alif_maqsura_def maqsura_to_ya_def)
  have c: "(\<lambda>c. if is_ta_marbuta c then 0x0647 else c) = marbuta_to_ha"
    by (rule ext) (simp add: is_ta_marbuta_def marbuta_to_ha_def)
  show ?thesis
    unfolding normalizeArabicText_def spec_normalize_def replace_class_delete
      replace_class_single a b c
    by (simp add: not_arabic_or_space_def is_tatweel_def is_diacritic_def)
qed

lemma dropWhile_rev_hd:
  assumes "s \<noteq> []" "\<not> P (hd s)"
  shows "rev (dropWhile P (rev s)) \<noteq> [] \<and> hd (rev (dropWhile P (rev s))) = hd s"
  using assms
proof (induction s rule: rev_induct)
  case Nil then show ?case by simp
next
  case (snoc x xs)
  show ?case
  proof (cases "xs = []")
    case True with snoc.prems show ?thesis by simp
  next
    case False
    with snoc.prems have h: "\<not> P (hd xs)" by simp
    from snoc.IH [OF False h] False show ?thesis by (simp add: hd_append)
  qed
qed

lemma trimmed_trim: "trimmed (trim s)"
proof (cases "dropWhile is_space s = []")
  case True
  have "trim s = []" unfolding trim_def True by simp
  then show ?thesis by (simp add: trimmed_def)
next
  case False
  let ?t = "dropWhile is_space s"
  have h: "\<not> is_space (hd ?t)" using False hd_dropWhile by blast
  from dropWhile_rev_hd [of "dropWhile is_space s" is_space, OF False h]
  have ne: "trim s \<noteq> []" and hd: "hd (trim s) = hd ?t" by (simp_all add: trim_def)
  have "dropWhile is_space (rev ?t) \<noteq> []" using ne by (simp add: trim_def)
  then have "\<not> is_space (hd (dropWhile is_space (rev ?t)))" using hd_dropWhile by blast
  then have "\<not> is_space (last (trim s))" using ne by (simp add: trim_def last_rev)
  with h hd show ?thesis by (simp add: trimmed_def)
qed

lemma trim_trimmed: "trimmed s \<Longrightarrow> trim s = s"
proof (cases "s = []")
  case True then show ?thesis by (simp add: trim_def)
next
  case False
  assume "trimmed s"
  with False have a: "\<not> is_space (hd s)" and b: "\<not> is_space (last s)" by (simp_all add: trimmed_def)
  from False a have "dropWhile is_space s = s" by (cases s) simp_all
  moreover from False b have "dropWhile is_space (rev s) = rev s" by (cases "rev s") (simp_all add: hd_rev) 
  ultimately show ?thesis by (simp add: trim_def)
qed

lemma trim_idem: "trim (trim s) = trim s"
  by (rule trim_trimmed [OF trimmed_trim])

lemma set_trim: "set (trim s) \<subseteq> set s"
proof
  fix x assume "x \<in> set (trim s)"
  then have "x \<in> set (dropWhile is_space (rev (dropWhile is_space s)))" by (simp add: trim_def)
  then have "x \<in> set (rev (dropWhile is_space s))" by (rule set_dropWhileD)
  then have "x \<in> set (dropWhile is_space s)" by simp
  then show "x \<in> set s" by (rule set_dropWhileD)
qed

lemma spec_normalize_stable:
  assumes "\<forall>c \<in> set s. stable_char c"
  shows "spec_normalize s = trim s"
proof -
  have 1: "filter (\<lambda>c. \<not> (0x064B \<le> c \<and> c \<le> 0x065F)) s = s" using assms by (auto simp: stable_char_def filter_id_conv)
  have 2: "filter (\<lambda>c. c \<noteq> 0x0640) s = s" using assms by (auto simp: stable_char_def filter_id_conv)
  have 3: "map unify_alef s = s" using assms by (auto simp: stable_char_def unify_alef_def map_idI)
  have 4: "map maqsura_to_ya s = s" using assms by (auto simp: stable_char_def maqsura_to_ya_def map_idI)
  have 5: "map marbuta_to_ha s = s" using assms by (auto simp: stable_char_def marbuta_to_ha_def map_idI)
  have 6: "filter (\<lambda>c. in_arabic_block c \<or> is_space c) s = s" using assms by (auto simp: stable_char_def filter_id_conv)
  show ?thesis unfolding spec_normalize_def 1 2 3 4 5 6 ..
qed

lemma stable_char_step:
  assumes "\<not> (0x064B \<le> c \<and> c \<le> 0x065F)" "c \<noteq> 0x0640"
    and "in_arabic_block (marbuta_to_ha (maqsura_to_ya (unify_alef c))) \<or>
         is_space (marbuta_to_ha (maqsura_to_ya (unify_alef c)))"
  shows "stable_char (marbuta_to_ha (maqsura_to_ya (unify_alef c)))"
proof -
  let ?d = "marbuta_to_ha (maqsura_to_ya (unify_alef c))"
  have "?d = c \<or> ?d = 0x0627 \<or> ?d = 0x064A \<or> ?d = 0x0647"
    by (simp add: unify_alef_def maqsura_to_ya_def marbuta_to_ha_def)
  moreover have "?d \<noteq> 0x0625 \<and> ?d \<noteq> 0x0623 \<and> ?d \<noteq> 0x0622 \<and> ?d \<noteq> 0x0649 \<and> ?d \<noteq> 0x0629"
    by (simp add: unify_alef_def maqsura_to_ya_def marbuta_to_ha_def)
  ultimately show ?thesis using assms unfolding stable_char_def by force
qed

lemma stable_pre_trim:
  "\<forall>c \<in> set (filter (\<lambda>c. in_arabic_block c \<or> is_space c)
         (map marbuta_to_ha
           (map maqsura_to_ya
             (map unify_alef
               (filter (\<lambda>c. c \<noteq> 0x0640)
                 (filter (\<lambda>c. \<not> (0x064B \<le> c \<and> c \<le> 0x065F)) s)))))). stable_char c"
  using stable_char_step by auto

lemma stable_normalize: "\<forall>c \<in> set (spec_normalize s). stable_char c"
  unfolding spec_normalize_def using stable_pre_trim [of s] set_trim by blast

lemma normalize_trim_core: "normalizeArabicText s = trim (normalize_core s)"
  by (simp add: normalize_pipeline spec_normalize_def normalize_core_def)

lemma normalize_core_append: "normalize_core (a @ b) = normalize_core a @ normalize_core b"
  by (simp add: normalize_core_def)

lemma is_space_not_arabic: "is_space c \<Longrightarrow> c < 0x0600 \<or> 0x06FF < c"
  unfolding is_space_def by linarith

lemma fold_letter_space: "is_space c \<Longrightarrow> fold_letter c = c"
  using is_space_not_arabic [of c]
  by (auto simp: fold_letter_def unify_alef_def maqsura_to_ya_def marbuta_to_ha_def)

lemma normalize_core_spaces:
  assumes "\<forall>c \<in> set w. is_space c"
  shows "normalize_core w = w"
  using assms
proof (induction w)
  case Nil show ?case by (simp add: normalize_core_def)
next
  case (Cons c w)
  then have sp: "is_space c" and IH: "normalize_core w = w" by simp_all
  from is_space_not_arabic [OF sp] have "c \<noteq> 0x0640" "\<not> (0x064B \<le> c \<and> c \<le> 0x065F)" by auto
  moreover from fold_letter_space [OF sp] have "marbuta_to_ha (maqsura_to_ya (unify_alef c)) = c"
    by (simp add: fold_letter_def)
  ultimately have "normalize_core (c # w) = c # normalize_core w"
    using sp by (simp add: normalize_core_def)
  with IH show ?case by simp
qed

lemma fold_letter_arabic: "in_arabic_block c \<Longrightarrow> in_arabic_block (fold_letter c)"
  by (simp add: fold_letter_def unify_alef_def maqsura_to_ya_def marbuta_to_ha_def in_arabic_block_def)

lemma normalize_core_letters:
  assumes "\<forall>c \<in> set u. kept_letter c"
  shows "normalize_core u = map fold_letter u"
  using assms
proof (induction u)
  case Nil show ?case by (simp add: normalize_core_def)
next
  case (Cons c u)
  then have k: "kept_letter c" and IH: "normalize_core u = map fold_letter u" by simp_all
  from k have "c \<noteq> 0x0640" "\<not> (0x064B \<le> c \<and> c \<le> 0x065F)" "in_arabic_block c"
    by (simp_all add: kept_letter_def is_diacritic_def is_tatweel_def)
  moreover from fold_letter_arabic [OF \<open>in_arabic_block c\<close>]
  have "in_arabic_block (marbuta_to_ha (maqsura_to_ya (unify_alef c)))" by (simp add: fold_letter_def)
  ultimately have "normalize_core (c # u) = fold_letter c # normalize_core u"
    by (simp add: normalize_core_def fold_letter_def)
  with IH show ?case by simp
qed

lemma fold_letter_not_space: "kept_letter c \<Longrightarrow> \<not> is_space (fold_letter c)"
  using fold_letter_arabic [of c] is_space_not_arabic [of "fold_letter c"]
  by (auto simp: kept_letter_def in_arabic_block_def)

lemma trim_pad:
  assumes p: "\<forall>c \<in> set p. is_space c" and q: "\<forall>c \<in> set q. is_space c" and x: "trimmed x"
  shows "trim (p @ x @ q) = x"
proof (cases "x = []")
  case True
  have "dropWhile is_space (p @ q) = []" using p q by simp
  then show ?thesis using True by (simp add: trim_def del: dropWhile_eq_Nil_conv dropWhile_append)
next
  case False
  with x have a: "\<not> is_space (hd x)" and b: "\<not> is_space (last x)" by (simp_all add: trimmed_def)
  have 1: "dropWhile is_space (p @ x @ q) = x @ q"
    using p a False by (cases x) (simp_all add: dropWhile_append2)
  have "dropWhile is_space (rev q @ rev x) = dropWhile is_space (rev x)"
    using q by (intro dropWhile_append2) simp
  moreover have "dropWhile is_space (rev x) = rev x"
    using b False by (cases "rev x") (simp_all add: hd_rev)
  ultimately have 2: "dropWhile is_space (rev q @ rev x) = rev x" by simp
  show ?thesis by (simp add: trim_def 1 2 del: dropWhile_append)
qed

lemma split_ws_word: "\<forall>c \<in> set u. \<not> is_space c \<Longrightarrow> split_ws u = [u]"
  by (induction u) simp_all

lemma split_ws_word_gap:
  assumes u: "\<forall>c \<in> set u. \<not> is_space c" and m: "\<forall>c \<in> set m. is_space c" "m \<noteq> []"
    and r: "rest = [] \<or> \<not> is_space (hd rest)"
  shows "split_ws (u @ m @ rest) = u # split_ws rest"
  using u
proof (induction u)
  case Nil
  from m obtain s m' where mm: "m = s # m'" "is_space s" "\<forall>c \<in> set m'. is_space c" by (cases m) auto
  have "dropWhile is_space (m' @ rest) = rest" using mm(3) r by (cases rest) (simp_all add: dropWhile_append2)
  then show ?case using mm by (simp del: dropWhile_append)
next
  case (Cons c u)
  then show ?case by simp
qed

text \<open>
  C1. normalizeArabicText applies, to every string, the seven transformations of the
  specification in their order: delete the diacritics U+064B..U+065F, delete the
  tatweel U+0640, turn U+0625, U+0623 and U+0622 into the bare alef U+0627, turn alif
  maqsura U+0649 into ya U+064A, turn ta marbuta U+0629 into ha U+0647, delete what is
  neither in the Arabic block U+0600..U+06FF nor whitespace, and trim.
\<close>

theorem normalizeArabicText_is_pipeline:
  "normalizeArabicText s =
     trim
       (filter (\<lambda>c. in_arabic_block c \<or> is_space c)
         (map marbuta_to_ha
           (map maqsura_to_ya
             (map unify_alef
               (filter (\<lambda>c. c \<noteq> 0x0640)
                 (filter (\<lambda>c. \<not> (0x064B \<le> c \<and> c \<le> 0x065F)) s))))))"
  using normalize_pipeline [of s] by (simp add: spec_normalize_def)

text \<open>
  C7. normalizeArabicText is idempotent: normalizing a normalized string changes nothing.
\<close>

theorem normalizeArabicText_idempotent:
  "normalizeArabicText (normalizeArabicText s) = normalizeArabicText s"
  by (simp add: normalize_pipeline spec_normalize_stable [OF stable_normalize])
    (simp add: spec_normalize_def trim_idem)

lemma fold_letter_outside: "\<not> in_arabic_block c \<Longrightarrow> fold_letter c = c"
  by (auto simp: fold_letter_def unify_alef_def maqsura_to_ya_def marbuta_to_ha_def in_arabic_block_def)

lemma normalize_core_image:
  "c \<in> set (normalize_core q) \<Longrightarrow>
     (in_arabic_block c \<or> is_space c) \<and> (\<exists>c0 \<in> set q. c = fold_letter c0)"
  by (auto simp: normalize_core_def fold_letter_def)

lemma normalize_core_word:
  assumes "\<forall>c \<in> set u. \<not> is_space c"
  shows "\<forall>c \<in> set (normalize_core u). \<not> is_space c"
proof
  fix c assume "c \<in> set (normalize_core u)"
  from normalize_core_image [OF this] obtain c0
    where a: "in_arabic_block c \<or> is_space c" and c0: "c0 \<in> set u" "c = fold_letter c0" by blast
  show "\<not> is_space c"
  proof (cases "in_arabic_block c0")
    case True
    from fold_letter_arabic [OF this] c0(2) have "in_arabic_block c" by simp
    with is_space_not_arabic [of c] show ?thesis by (auto simp: in_arabic_block_def)
  next
    case False
    with c0 assms show ?thesis by (simp add: fold_letter_outside)
  qed
qed

lemma normalize_core_keeps:
  assumes "c \<in> set u" and "kept_letter c"
  shows "fold_letter c \<in> set (normalize_core u)"
proof -
  let ?X = "filter (\<lambda>c. c \<noteq> 0x0640) (filter (\<lambda>c. \<not> (0x064B \<le> c \<and> c \<le> 0x065F)) u)"
  from assms(2) have k: "c \<noteq> 0x0640" "\<not> (0x064B \<le> c \<and> c \<le> 0x065F)" "in_arabic_block c"
    by (simp_all add: kept_letter_def is_diacritic_def is_tatweel_def)
  from assms(1) k(1,2) have "c \<in> set ?X" by simp
  then have "fold_letter c \<in> fold_letter ` set ?X" by (rule imageI)
  moreover have "map marbuta_to_ha (map maqsura_to_ya (map unify_alef ?X)) = map fold_letter ?X"
    by (simp add: fold_letter_def)
  moreover have "in_arabic_block (fold_letter c)" using k(3) by (rule fold_letter_arabic)
  ultimately show ?thesis unfolding normalize_core_def by simp
qed

lemma normalize_word:
  assumes "\<forall>c \<in> set u. \<not> is_space c"
  shows "normalizeArabicText u = normalize_core u"
proof -
  from normalize_core_word [OF assms] have "trimmed (normalize_core u)"
    by (cases "normalize_core u = []") (simp_all add: trimmed_def)
  then show ?thesis by (simp add: normalize_trim_core trim_trimmed)
qed

lemmas text_eval = normalizeArabicText_def replace_class_def
      is_diacritic_def is_tatweel_def is_alef_variant_def is_alif_maqsura_def is_ta_marbuta_def
      not_arabic_or_space_def in_arabic_block_def is_space_def trim_def

lemma spaces_eval: "is_space 0x20" "is_space 0x09"
  by (simp_all add: is_space_def)

lemma words_eval:
  "\<not> is_space 0x0628" "\<not> is_space 0x062A" "\<not> is_space 0x0650" "\<not> is_space 0x61"
  "\<not> is_space 0x0640" "\<not> is_space 0x0629" "kept_letter 0x0628" "kept_letter 0x062A"
  by (simp_all add: is_space_def kept_letter_def in_arabic_block_def is_diacritic_def
      is_tatweel_def)

lemma normalize_words_eval:
  "normalizeArabicText [0x0628] = [0x0628]" "normalizeArabicText [0x062A] = [0x062A]"
  "normalizeArabicText [0x0628, 0x0650, 0x61] = [0x0628]"
  "normalizeArabicText [0x0640, 0x062A, 0x0629] = [0x062A, 0x0647]"
  by (simp_all add: text_eval)

text \<open>
  C8, as the code has it. tokenizeArabicText never returns an empty token. An input of two
  words separated and padded by whitespace gives exactly two tokens whenever each word,
  a string without whitespace, has at least one character that the normalizer keeps (a
  character of the Arabic block other than the diacritics and the tatweel): the tokens
  are the normalized words. A word of which the normalizer keeps nothing gives no token:
  the Latin letters of \<^verbatim>\<open>"  a   b  "\<close> are deleted, so that input gives no token at
  all.
\<close>

theorem tokenizeArabicText_two_words:
  assumes "\<forall>c \<in> set p. is_space c" and "\<forall>c \<in> set m. is_space c" and "m \<noteq> []"
    and "\<forall>c \<in> set q. is_space c"
    and "\<forall>c \<in> set u. \<not> is_space c" and "\<exists>c \<in> set u. kept_letter c"
    and "\<forall>c \<in> set v. \<not> is_space c" and "\<exists>c \<in> set v. kept_letter c"
  shows "(\<forall>t \<in> set (tokenizeArabicText s). t \<noteq> []) \<and>
         tokenizeArabicText (p @ u @ m @ v @ q) = [normalizeArabicText u, normalizeArabicText v] \<and>
         length (tokenizeArabicText (p @ u @ m @ v @ q)) = 2"
proof -
  note p = assms(1) and m = assms(2,3) and q = assms(4)
  let ?u = "normalize_core u" and ?v = "normalize_core v"
  have us: "\<forall>c \<in> set ?u. \<not> is_space c" using assms(5) by (rule normalize_core_word)
  have vs: "\<forall>c \<in> set ?v. \<not> is_space c" using assms(7) by (rule normalize_core_word)
  from assms(6) obtain a where "a \<in> set u" "kept_letter a" by blast
  from normalize_core_keeps [OF this] have une: "?u \<noteq> []" by auto
  from assms(8) obtain b where "b \<in> set v" "kept_letter b" by blast
  from normalize_core_keeps [OF this] have vne: "?v \<noteq> []" by auto
  have core: "normalize_core (p @ u @ m @ v @ q) = p @ (?u @ m @ ?v) @ q"
    using p m q by (simp add: normalize_core_append normalize_core_spaces)
  have "hd (?u @ m @ ?v) = hd ?u" using une by simp
  moreover have "last (?u @ m @ ?v) = last ?v" using vne by simp
  moreover have "\<not> is_space (hd ?u)" using us une by simp
  moreover have "\<not> is_space (last ?v)" using vs vne by simp
  ultimately have "trimmed (?u @ m @ ?v)" unfolding trimmed_def by presburger
  from trim_pad [OF p q this] core
  have n: "normalizeArabicText (p @ u @ m @ v @ q) = ?u @ m @ ?v"
    by (simp add: normalize_trim_core)
  have "?v = [] \<or> \<not> is_space (hd ?v)" using vs vne by simp
  from split_ws_word_gap [OF us m this] split_ws_word [OF vs]
  have "split_ws (?u @ m @ ?v) = [?u, ?v]" by simp
  then have "tokenizeArabicText (p @ u @ m @ v @ q) = [?u, ?v]"
    using une vne by (simp add: tokenizeArabicText_def n filter_Boolean_def)
  moreover have "\<forall>t \<in> set (tokenizeArabicText s). t \<noteq> []"
    by (simp add: tokenizeArabicText_def filter_Boolean_def)
  ultimately show ?thesis
    using normalize_word [OF assms(5)] normalize_word [OF assms(7)] by simp
qed

theorem tokenizeArabicText_two_words_witness:
  "[] \<notin> set (tokenizeArabicText (js ''  a   b  '')) \<and>
   tokenizeArabicText ([0x20, 0x20] @ [0x0628] @ [0x20, 0x20, 0x20] @ [0x062A] @ [0x20, 0x20])
     = [[0x0628], [0x062A]] \<and>
   tokenizeArabicText ([0x20] @ [0x0628, 0x0650, 0x61] @ [0x09, 0x20] @ [0x0640, 0x062A, 0x0629] @ [])
     = [[0x0628], [0x062A, 0x0647]] \<and>
   length (tokenizeArabicText
     ([0x20] @ [0x0628, 0x0650, 0x61] @ [0x09, 0x20] @ [0x0640, 0x062A, 0x0629] @ [])) = 2"
proof -
  have s: "\<forall>c \<in> set [0x20, 0x20]. is_space c" "\<forall>c \<in> set [0x20, 0x20, 0x20]. is_space c"
    "\<forall>c \<in> set [0x20]. is_space c" "\<forall>c \<in> set [0x09, 0x20]. is_space c"
    "\<forall>c \<in> set []. is_space c"
    by (simp_all add: spaces_eval)
  have w: "\<forall>c \<in> set [0x0628]. \<not> is_space c" "\<forall>c \<in> set [0x062A]. \<not> is_space c"
    "\<forall>c \<in> set [0x0628, 0x0650, 0x61]. \<not> is_space c"
    "\<forall>c \<in> set [0x0640, 0x062A, 0x0629]. \<not> is_space c"
    by (simp_all add: words_eval)
  have k: "\<exists>c \<in> set [0x0628]. kept_letter c" "\<exists>c \<in> set [0x062A]. kept_letter c"
    "\<exists>c \<in> set [0x0628, 0x0650, 0x61]. kept_letter c"
    "\<exists>c \<in> set [0x0640, 0x062A, 0x0629]. kept_letter c"
    by (simp_all add: words_eval)
  from tokenizeArabicText_two_words [OF s(1) s(2) _ s(1) w(1) k(1) w(2) k(2), of "js ''  a   b  ''"]
  have 1: "[] \<notin> set (tokenizeArabicText (js ''  a   b  ''))"
    and 2: "tokenizeArabicText ([0x20, 0x20] @ [0x0628] @ [0x20, 0x20, 0x20] @ [0x062A] @ [0x20, 0x20])
     = [[0x0628], [0x062A]]"
    by (auto simp: normalize_words_eval)
  from tokenizeArabicText_two_words [OF s(3) s(4) _ s(5) w(3) k(3) w(4) k(4), of "[]"]
  have 3: "tokenizeArabicText ([0x20] @ [0x0628, 0x0650, 0x61] @ [0x09, 0x20] @ [0x0640, 0x062A, 0x0629] @ [])
     = [[0x0628], [0x062A, 0x0647]]"
    by (simp add: normalize_words_eval)
  from 1 2 3 show ?thesis by simp
qed

theorem tokenizeArabicText_latin_counterexample:
  "tokenizeArabicText (js ''  a   b  '') = [] \<and>
   length (tokenizeArabicText (js ''  a   b  '')) \<noteq> 2"
  by (simp add: tokenizeArabicText_def normalizeArabicText_def replace_class_def js_def
      is_diacritic_def is_tatweel_def is_alef_variant_def is_alif_maqsura_def is_ta_marbuta_def
      not_arabic_or_space_def in_arabic_block_def is_space_def trim_def filter_Boolean_def)

section \<open>Facts about the engine and the search\<close>

lemma cur_put [simp]: "cur (put d w) = d"
  by (simp add: cur_def put_def split: option.splits)

lemma put_put [simp]: "put d (put d' w) = put d w"
  by (simp add: put_def split: option.splits)

lemma put_cur [simp]: "put (cur w) w = w"
  by (simp add: put_def cur_def split: option.splits)

lemma txn_put [simp]: "(txn (put d w) = None) = (txn w = None)"
  by (simp add: put_def split: option.splits)

lemma console_put [simp]: "console (put d w) = console w"
  by (simp add: put_def split: option.splits)

lemma aborted_closed: "txn w = None \<or> \<not> rolls_back e s \<Longrightarrow> aborted e s w = w"
  by (auto simp: aborted_def)

lemma disk_aborted [simp]: "disk (aborted e s w) = disk w"
  by (simp add: aborted_def)

lemma console_aborted [simp]: "console (aborted e s w) = console w"
  by (simp add: aborted_def)

lemma txn_aborted: "txn w = None \<Longrightarrow> txn (aborted e s w) = None"
  by (simp add: aborted_def)

lemma execute_db_stmt:
  "is_db_stmt s \<Longrightarrow> execute e s w =
     (if faulty e s then (Inl EngineError, aborted e s w)
      else case exec_db s (cur w) of None \<Rightarrow> (Inl EngineError, w) | Some (rs, d) \<Rightarrow> (Inr rs, put d w))"
  by (simp add: execute_def is_db_stmt_def)

lemma runSql_db_stmt:
  "is_db_stmt s \<Longrightarrow> runSql e s w =
     (if faulty e s
      then (Inl (DBError ''SQL execution failed.''), log_error (SqlFailed s) (aborted e s w))
      else case exec_db s (cur w) of
             None \<Rightarrow> (Inl (DBError ''SQL execution failed.''), log_error (SqlFailed s) w)
           | Some (rs, d) \<Rightarrow> (Inr rs, put d w))"
  by (simp add: runSql_def execute_db_stmt split: option.splits)

lemma ascii_lower_plain: "plain_char p \<Longrightarrow> ascii_lower p = ascii_lower c \<longleftrightarrow> p = c"
  unfolding plain_char_def ascii_lower_def by auto

lemma sql_like_percent_Nil [simp]: "sql_like [0x25] s"
  by (induction s) simp_all

lemma sql_like_prefix:
  "\<forall>c \<in> set q. plain_char c \<Longrightarrow> sql_like (q @ [0x25]) s \<longleftrightarrow> prefix q s"
proof (induction q arbitrary: s)
  case Nil then show ?case by simp
next
  case (Cons p q)
  then have pl: "plain_char p" and IH: "\<And>s. sql_like (q @ [0x25]) s \<longleftrightarrow> prefix q s" by simp_all
  from pl have ne: "p \<noteq> 0x25" "p \<noteq> 0x5F" by (simp_all add: plain_char_def)
  show ?case
  proof (cases s)
    case Nil then show ?thesis using ne by simp
  next
    case (Cons c s')
    then show ?thesis using ne IH ascii_lower_plain [OF pl, of c] by auto
  qed
qed

lemma sql_like_percent: "sql_like (0x25 # ps) s \<longleftrightarrow> (\<exists>t. suffix t s \<and> sql_like ps t)"
proof (induction s)
  case Nil then show ?case by simp
next
  case (Cons c s)
  have "sql_like (0x25 # ps) (c # s) \<longleftrightarrow> sql_like ps (c # s) \<or> sql_like (0x25 # ps) s" by simp
  also have "\<dots> \<longleftrightarrow> sql_like ps (c # s) \<or> (\<exists>t. suffix t s \<and> sql_like ps t)" using Cons by simp
  also have "\<dots> \<longleftrightarrow> (\<exists>t. suffix t (c # s) \<and> sql_like ps t)" by (auto simp: suffix_Cons)
  finally show ?case .
qed

lemma sql_like_contains:
  assumes "\<forall>c \<in> set q. plain_char c"
  shows "sql_like (js ''%'' @ q @ js ''%'') s \<longleftrightarrow> sublist q s"
proof -
  have "js ''%'' = [0x25]" by (simp add: js_def)
  then have "sql_like (js ''%'' @ q @ js ''%'') s \<longleftrightarrow> (\<exists>t. suffix t s \<and> prefix q t)"
    using sql_like_percent [of "q @ [0x25]" s] sql_like_prefix [OF assms] by simp
  also have "\<dots> \<longleftrightarrow> sublist q s"
    by (auto simp: sublist_def suffix_def prefix_def)
  finally show ?thesis .
qed

lemma stable_char_plain: "stable_char c \<Longrightarrow> plain_char c"
proof -
  assume "stable_char c"
  then have "in_arabic_block c \<or> is_space c" by (simp add: stable_char_def)
  then show ?thesis
  proof
    assume "in_arabic_block c" then show ?thesis by (simp add: in_arabic_block_def plain_char_def)
  next
    assume "is_space c" then show ?thesis unfolding is_space_def plain_char_def by linarith
  qed
qed

lemma normalize_plain: "\<forall>c \<in> set (normalizeArabicText q). plain_char c"
  using stable_normalize [of q] stable_char_plain by (simp add: normalize_pipeline)

lemma hadith_rows_map [simp]: "hadith_rows (map RHadith rs) = rs"
  by (induction rs) (simp_all add: hadith_rows_def)

lemma search_general:
  assumes "hadith_table (cur w) = Some h"
    and "\<not> faulty e (SelectHadithLike (js ''%'' @ normalizeArabicText q @ js ''%''))"
  shows "searchHadithByText e q w =
     (Inr (take 100 (sort_key order_key
             (filter (\<lambda>r. sublist (normalizeArabicText q) (h_search_keys r)) (h_rows h)))), w)"
  using assms
  by (simp add: searchHadithByText_def bind_io_def runSql_db_stmt is_db_stmt_def return_io_def
      sql_like_contains [OF normalize_plain] order_by_collection_id_def)

lemma normalize_no_arabic:
  assumes "\<forall>c \<in> set q. \<not> in_arabic_block c"
  shows "normalizeArabicText q = []"
proof -
  have "\<forall>c \<in> set (normalize_core q). is_space c"
  proof
    fix c assume "c \<in> set (normalize_core q)"
    from normalize_core_image [OF this] obtain c0
      where a: "in_arabic_block c \<or> is_space c" and c0: "c0 \<in> set q" "c = fold_letter c0" by blast
    from c0 assms have "c = c0" "\<not> in_arabic_block c0" by (simp_all add: fold_letter_outside)
    with a show "is_space c" by simp
  qed
  then have "dropWhile is_space (normalize_core q) = []" by simp
  then show ?thesis by (simp add: normalize_trim_core trim_def del: dropWhile_eq_Nil_conv)
qed

section \<open>Facts about the migration\<close>

lemma runSql_each_db:
  assumes "\<forall>s \<in> set ss. is_db_stmt s"
  shows "runSql_each e ss w = (Inr (), w') \<longleftrightarrow>
         (\<forall>s \<in> set ss. \<not> faulty e s) \<and> (\<exists>d'. exec_all ss (cur w) = Some d' \<and> w' = put d' w)"
  using assms
proof (induction ss arbitrary: w)
  case Nil
  show ?case by (auto simp: return_io_def)
next
  case (Cons s ss)
  then have s: "is_db_stmt s" and IH: "\<And>w. runSql_each e ss w = (Inr (), w') \<longleftrightarrow>
         (\<forall>s \<in> set ss. \<not> faulty e s) \<and> (\<exists>d'. exec_all ss (cur w) = Some d' \<and> w' = put d' w)"
    by simp_all
  show ?case
  proof (cases "faulty e s")
    case True
    then show ?thesis using s by (simp add: bind_io_def runSql_db_stmt)
  next
    case False
    show ?thesis
    proof (cases "exec_db s (cur w)")
      case None
      then show ?thesis using s False by (simp add: bind_io_def runSql_db_stmt)
    next
      case (Some p)
      obtain rs d where p: "p = (rs, d)" by (cases p)
      show ?thesis using s False Some p IH [of "put d w"] by (simp add: bind_io_def runSql_db_stmt)
    qed
  qed
qed

lemma insert_or_ignore_ids:
  "c_id ` set (foldl insert_or_ignore_collection cs xs) = c_id ` set cs \<union> c_id ` set xs"
  by (induction xs arbitrary: cs) (auto simp: insert_or_ignore_collection_def)

lemma insert_or_ignore_present:
  "c_id ` set xs \<subseteq> c_id ` set cs \<Longrightarrow> foldl insert_or_ignore_collection cs xs = cs"
  by (induction xs arbitrary: cs) (auto simp: insert_or_ignore_collection_def)

lemma set_distinct_collections [simp]:
  "set (distinct_collections h) = h_collection ` set (h_rows h)"
  by (simp add: distinct_collections_def)

lemma stage1: "exec_all [CreateTableMeta, CreateTableCollections, CreateTableHadith] d = Some d1 \<Longrightarrow> tables3 d1"
  by (auto simp: tables3_def split: if_splits)

lemma stage2:
  assumes "tables3 d1"
    and "(if ''uid'' \<notin> set (table_columns d1 ''hadith'')
          then exec_all [AlterHadithAddUid, UpdateHadithUid] d1 else Some d1) = Some d2"
  shows "tables3 d2 \<and> (\<exists>h. hadith_table d2 = Some h \<and> has_uid h)"
proof -
  from assms(1) obtain h where h: "hadith_table d1 = Some h" by (auto simp: tables3_def)
  show ?thesis
  proof (cases "has_uid h")
    case True
    with h assms show ?thesis by (simp add: table_columns_def)
  next
    case False
    with h assms(2) have "exec_all [AlterHadithAddUid, UpdateHadithUid] d1 = Some d2"
      by (simp add: table_columns_def)
    with h False assms(1) show ?thesis
      by (auto simp: tables3_def Let_def split: if_splits)
  qed
qed

lemma stage3:
  assumes "tables3 d2" and "hadith_table d2 = Some h" and "has_uid h"
    and "exec_all [CreateIndexCollection, CreateIndexSearch, CreateUniqueIndexUid,
                   CreateTableUserSelectedCollections, BackfillCollections] d2 = Some d3"
  shows "migrated d3"
proof -
  from assms(1) obtain m cs where t: "meta_table d2 = Some m" "collections_table d2 = Some cs"
    by (auto simp: tables3_def)
  show ?thesis
    using assms(2-4) t
    by (auto simp: migrated_def insert_or_ignore_ids image_image split: if_splits)
qed

lemma migrate_db_migrated:
  assumes "migrate_db d = Some d'"
  shows "migrated d'"
proof -
  from assms obtain d1 d2 where
    e1: "exec_all [CreateTableMeta, CreateTableCollections, CreateTableHadith] d = Some d1" and
    e2: "(if ''uid'' \<notin> set (table_columns d1 ''hadith'')
          then exec_all [AlterHadithAddUid, UpdateHadithUid] d1 else Some d1) = Some d2" and
    e3: "exec_all [CreateIndexCollection, CreateIndexSearch, CreateUniqueIndexUid,
                   CreateTableUserSelectedCollections, BackfillCollections] d2 = Some d'"
    unfolding migrate_db_def by (simp split: option.splits del: exec_all.simps)
  from stage2 [OF stage1 [OF e1] e2] obtain h where "tables3 d2" "hadith_table d2 = Some h" "has_uid h"
    by blast
  then show ?thesis using e3 by (rule stage3)
qed

lemma hadith_table_same: "hadith_table d = Some h \<Longrightarrow> d\<lparr>hadith_table := Some h\<rparr> = d"
  by (cases d) simp

lemma collections_table_same: "collections_table d = Some cs \<Longrightarrow> d\<lparr>collections_table := Some cs\<rparr> = d"
  by (cases d) simp

lemma idx_same:
  "idx_hadith_collection h \<Longrightarrow> h\<lparr>idx_hadith_collection := True\<rparr> = h"
  "idx_hadith_search h \<Longrightarrow> h\<lparr>idx_hadith_search := True\<rparr> = h"
  by (cases h; simp)+

lemma migrated_fix:
  assumes "migrated d"
  shows "migrate_db d = Some d"
proof -
  from assms obtain m us cs h where
    t: "meta_table d = Some m" "user_selected_collections_table d = Some us"
       "collections_table d = Some cs" "hadith_table d = Some h" and
    h: "has_uid h" "idx_hadith_collection h" "idx_hadith_search h" "idx_hadith_uid h" and
    sub: "h_collection ` set (h_rows h) \<subseteq> c_id ` set cs"
    by (auto simp: migrated_def split: option.splits)
  have s1: "exec_all [CreateTableMeta, CreateTableCollections, CreateTableHadith] d = Some d"
    using t by simp
  have cols: "''uid'' \<in> set (table_columns d ''hadith'')"
    using t h by (simp add: table_columns_def)
  have bf: "foldl insert_or_ignore_collection cs
              (map (\<lambda>c. \<lparr>c_id = c, c_name = c, c_version = None, c_description = None\<rparr>)
                (distinct_collections h)) = cs"
    using sub by (intro insert_or_ignore_present) (simp add: image_image)
  have s3: "exec_all [CreateIndexCollection, CreateIndexSearch, CreateUniqueIndexUid,
                   CreateTableUserSelectedCollections, BackfillCollections] d = Some d"
    using t h by (simp add: idx_same hadith_table_same collections_table_same bf)
  show ?thesis unfolding migrate_db_def s1 using cols s3 by (simp del: exec_all.simps)
qed

lemma bind_io_Inr_iff:
  "bind_io m f w = (Inr y, w') \<longleftrightarrow> (\<exists>x w1. m w = (Inr x, w1) \<and> f x w1 = (Inr y, w'))"
  by (cases "m w") (auto simp: bind_io_def split: sum.splits)

lemma list_ex_RColumn: "list_ex (\<lambda>r. r = RColumn c) (map RColumn cols) \<longleftrightarrow> c \<in> set cols"
  by (induction cols) auto

lemma columnExists_Inr_iff:
  "columnExists e t c w = (Inr b, w') \<longleftrightarrow>
     \<not> faulty e (PragmaTableInfo t) \<and> w' = w \<and> b = (c \<in> set (table_columns (cur w) t))"
  by (auto simp: columnExists_def bind_io_def runSql_db_stmt is_db_stmt_def return_io_def
      list_ex_RColumn)



lemma execute_Begin:
  "execute e Begin w =
     (if faulty e Begin then (Inl EngineError, aborted e Begin w)
      else if txn w \<noteq> None then (Inl EngineError, w)
      else (Inr [], w\<lparr>txn := Some (disk w)\<rparr>))"
  by (simp add: execute_def split: option.splits)

lemma execute_Commit:
  "execute e Commit w =
     (if faulty e Commit then (Inl EngineError, aborted e Commit w)
      else case txn w of None \<Rightarrow> (Inl EngineError, w) | Some d \<Rightarrow> (Inr [], w\<lparr>disk := d, txn := None\<rparr>))"
  by (simp add: execute_def split: option.splits)

lemma execute_Rollback:
  "execute e Rollback w =
     (case txn w of None \<Rightarrow> (Inl EngineError, w) | Some _ \<Rightarrow> (Inr [], w\<lparr>txn := None\<rparr>))"
  by (simp add: execute_def)

lemma rollback_world:
  "snd (execute e Rollback w) = w\<lparr>txn := None\<rparr>"
  by (cases w) (auto simp: execute_Rollback split: option.splits)

lemma transaction_failed_world:
  "transaction_failed e w = (Inl (DBError ''Database transaction failed.''),
     log_error TransactionFailed (w\<lparr>txn := None\<rparr>))"
  by (simp add: transaction_failed_def rollback_world)

lemma runTransaction_Inr_iff:
  "runTransaction e doWork w = (Inr r, w') \<longleftrightarrow>
     \<not> faulty e Begin \<and> txn w = None \<and> \<not> faulty e Commit \<and>
     (\<exists>w2 d. doWork (w\<lparr>txn := Some (disk w)\<rparr>) = (Inr r, w2) \<and> txn w2 = Some d \<and>
             w' = w2\<lparr>disk := d, txn := None\<rparr>)"
  by (cases "doWork (w\<lparr>txn := Some (disk w)\<rparr>)")
    (auto simp: runTransaction_def execute_Begin execute_Commit transaction_failed_world
      split: sum.splits option.splits)

lemma preservesD: "preserves P m \<Longrightarrow> P w \<Longrightarrow> m w = (r, w') \<Longrightarrow> P w'"
  unfolding preserves_def by blast

lemma preserves_bind:
  assumes "preserves P m" and "\<And>x. preserves P (f x)"
  shows "preserves P (bind_io m f)"
  unfolding preserves_def
proof (intro allI impI)
  fix w r w' assume P: "P w" and b: "bind_io m f w = (r, w')"
  obtain a w1 where m: "m w = (a, w1)" by force
  from preservesD [OF assms(1) P m] have w1: "P w1" .
  show "P w'"
  proof (cases a)
    case (Inl err)
    with m b w1 show ?thesis by (simp add: bind_io_def)
  next
    case (Inr x)
    with m b have "f x w1 = (r, w')" by (simp add: bind_io_def)
    from preservesD [OF assms(2) w1 this] show ?thesis .
  qed
qed

lemma preserves_return: "preserves P (return_io x)"
  by (simp add: preserves_def return_io_def)

lemma preserves_if:
  "(c \<Longrightarrow> preserves P a) \<Longrightarrow> (\<not> c \<Longrightarrow> preserves P b) \<Longrightarrow> preserves P (if c then a else b)"
  by simp

lemma txn_safeD:
  "txn_safe D m \<Longrightarrow> in_txn D w \<Longrightarrow> m w = (r, w') \<Longrightarrow>
     disk w' = D \<and> (\<forall>x. r = Inr x \<longrightarrow> txn w' \<noteq> None)"
  unfolding txn_safe_def by blast

lemma txn_safe_bind:
  assumes "txn_safe D m" and "\<And>x. txn_safe D (f x)"
  shows "txn_safe D (bind_io m f)"
  unfolding txn_safe_def
proof (intro allI impI)
  fix w r w' assume P: "in_txn D w" and b: "bind_io m f w = (r, w')"
  obtain a w1 where m: "m w = (a, w1)" by force
  from txn_safeD [OF assms(1) P m]
  have w1: "disk w1 = D" "\<forall>x. a = Inr x \<longrightarrow> txn w1 \<noteq> None" by simp_all
  show "disk w' = D \<and> (\<forall>x. r = Inr x \<longrightarrow> txn w' \<noteq> None)"
  proof (cases a)
    case (Inl err)
    with m b w1 show ?thesis by (auto simp: bind_io_def)
  next
    case (Inr x)
    with m b have f: "f x w1 = (r, w')" by (simp add: bind_io_def)
    from w1 Inr have "in_txn D w1" by (simp add: in_txn_def)
    from txn_safeD [OF assms(2) this f] show ?thesis .
  qed
qed

lemma txn_safe_return: "txn_safe D (return_io x)"
  by (simp add: txn_safe_def return_io_def in_txn_def)


lemma txn_safe_runSql: "is_db_stmt s \<Longrightarrow> txn_safe D (runSql e s)"
  by (auto simp: txn_safe_def runSql_db_stmt in_txn_def put_def log_error_def
      split: if_splits option.splits)




lemma runTransaction_Inl:
  assumes "runTransaction e doWork w = (Inl err, w')" and "txn w = None"
    and "txn_safe (disk w) doWork"
  shows "disk w' = disk w \<and> txn w' = None"
proof (cases "faulty e Begin")
  case True
  with assms(1) show ?thesis
    by (auto simp: runTransaction_def execute_Begin transaction_failed_world log_error_def)
next
  case False
  obtain r w2 where dw: "doWork (w\<lparr>txn := Some (disk w)\<rparr>) = (r, w2)" by force
  have "in_txn (disk w) (w\<lparr>txn := Some (disk w)\<rparr>)" by (simp add: in_txn_def)
  from txn_safeD [OF assms(3) this dw]
  have w2: "disk w2 = disk w" "\<forall>x. r = Inr x \<longrightarrow> txn w2 \<noteq> None" by simp_all
  show ?thesis
  proof (cases r)
    case (Inl x)
    with assms(1,2) False dw w2 show ?thesis
      by (auto simp: runTransaction_def execute_Begin transaction_failed_world log_error_def)
  next
    case (Inr x)
    with w2 obtain d where d: "txn w2 = Some d" by auto
    show ?thesis
      using assms(1,2) False dw w2 d Inr
      by (cases "faulty e Commit")
        (auto simp: runTransaction_def execute_Begin execute_Commit transaction_failed_world
          log_error_def)
  qed
qed

lemma runSql_pragmas:
  "runSql e PragmaJournalModeWal w =
     (if faulty e PragmaJournalModeWal
      then (Inl (DBError ''SQL execution failed.''),
            log_error (SqlFailed PragmaJournalModeWal) (aborted e PragmaJournalModeWal w))
      else if txn w \<noteq> None
      then (Inl (DBError ''SQL execution failed.''), log_error (SqlFailed PragmaJournalModeWal) w)
      else (Inr [], w\<lparr>journal_wal := True\<rparr>))"
  "runSql e PragmaForeignKeysOn w =
     (if faulty e PragmaForeignKeysOn
      then (Inl (DBError ''SQL execution failed.''),
            log_error (SqlFailed PragmaForeignKeysOn) (aborted e PragmaForeignKeysOn w))
      else (Inr [], if txn w \<noteq> None then w else w\<lparr>foreign_keys := True\<rparr>))"
  by (simp_all add: runSql_def execute_def split: option.splits)

lemma pragmas_Inr_iff:
  "runSql_each e [PragmaJournalModeWal, PragmaForeignKeysOn] w = (Inr (), w1) \<longleftrightarrow>
     \<not> faulty e PragmaJournalModeWal \<and> \<not> faulty e PragmaForeignKeysOn \<and> txn w = None \<and>
     w1 = set_pragmas w"
  by (auto simp: bind_io_def runSql_pragmas return_io_def set_pragmas_def)




lemma set_pragmas_log [simp]: "set_pragmas (log_info e m w) = log_info e m (set_pragmas w)"
  by (simp add: set_pragmas_def log_info_def)

lemma set_pragmas_idem [simp]: "set_pragmas (set_pragmas w) = set_pragmas w"
  by (simp add: set_pragmas_def)

lemma set_pragmas_disk [simp]: "set_pragmas (w\<lparr>disk := d\<rparr>) = set_pragmas w\<lparr>disk := d\<rparr>"
  by (simp add: set_pragmas_def)



lemma migration_work_ok:
  assumes "\<forall>s. \<not> faulty e s" and "migrate_db (cur w) = Some d'"
  shows "migration_work e w = (Inr (), put d' w)"
proof -
  let ?A = "[CreateTableMeta, CreateTableCollections, CreateTableHadith]"
  let ?B = "[AlterHadithAddUid, UpdateHadithUid]"
  let ?C = "[CreateIndexCollection, CreateIndexSearch, CreateUniqueIndexUid,
             CreateTableUserSelectedCollections, BackfillCollections]"
  have dbA: "\<forall>s \<in> set ?A. is_db_stmt s" and dbB: "\<forall>s \<in> set ?B. is_db_stmt s"
    and dbC: "\<forall>s \<in> set ?C. is_db_stmt s" by (simp_all add: is_db_stmt_def)
  from assms(2) obtain d1 d2 where
    e1: "exec_all ?A (cur w) = Some d1" and
    e2: "(if ''uid'' \<notin> set (table_columns d1 ''hadith'') then exec_all ?B d1 else Some d1) = Some d2" and
    e3: "exec_all ?C d2 = Some d'"
    unfolding migrate_db_def by (simp split: option.splits del: exec_all.simps)
  have a: "runSql_each e ?A w = (Inr (), put d1 w)"
    using runSql_each_db [OF dbA, of e w "put d1 w"] assms(1) e1 by simp
  have c: "columnExists e ''hadith'' ''uid'' (put d1 w) =
             (Inr (''uid'' \<in> set (table_columns d1 ''hadith'')), put d1 w)"
    using assms(1) by (simp add: columnExists_Inr_iff)
  have b: "(if \<not> (''uid'' \<in> set (table_columns d1 ''hadith'')) then runSql_each e ?B else return_io ())
             (put d1 w) = (Inr (), put d2 w)"
  proof (cases "''uid'' \<in> set (table_columns d1 ''hadith'')")
    case True
    with e2 show ?thesis by (simp add: return_io_def)
  next
    case False
    with e2 have "exec_all ?B (cur (put d1 w)) = Some d2" by simp
    with runSql_each_db [OF dbB, of e "put d1 w" "put d2 w"] assms(1) False show ?thesis by simp
  qed
  have d: "runSql_each e ?C (put d2 w) = (Inr (), put d' w)"
    using runSql_each_db [OF dbC, of e "put d2 w" "put d' w"] assms(1) e3 by simp
  show ?thesis
    by (simp add: migration_work_def bind_io_def a c b d del: runSql_each.simps)
qed

lemma runMigrations_ok:
  assumes "migrate_db (disk w) = Some d'" and "txn w = None" and "\<forall>s. \<not> faulty e s"
  shows "runMigrations e w = (Inr (), log_info e MigrationOK (set_pragmas w\<lparr>disk := d'\<rparr>))"
proof -
  let ?w1 = "set_pragmas w"
  let ?w2 = "?w1\<lparr>txn := Some (disk ?w1)\<rparr>"
  have p: "runSql_each e [PragmaJournalModeWal, PragmaForeignKeysOn] w = (Inr (), ?w1)"
    using assms(2,3) by (simp add: pragmas_Inr_iff del: runSql_each.simps)
  have "migrate_db (cur ?w2) = Some d'" using assms(1) by (simp add: cur_def set_pragmas_def)
  from migration_work_ok [OF assms(3) this]
  have mw: "migration_work e ?w2 = (Inr (), put d' ?w2)" .
  have "(put d' ?w2)\<lparr>disk := d', txn := None\<rparr> = ?w1\<lparr>disk := d'\<rparr>"
    using assms(2) by (cases w) (simp add: set_pragmas_def put_def)
  moreover have "txn (put d' ?w2) = Some d'" by (simp add: put_def)
  ultimately have t: "runTransaction e (migration_work e) ?w1 = (Inr (), ?w1\<lparr>disk := d'\<rparr>)"
    unfolding runTransaction_Inr_iff using assms(2,3) mw
    by (auto simp: set_pragmas_def)
  show ?thesis
    by (simp add: runMigrations_def bind_io_def p t del: runSql_each.simps)
qed


















section \<open>Facts about the seeding\<close>

lemma cur_add_logs [simp]: "cur (add_logs ls w) = cur w"
  by (simp add: cur_def add_logs_def split: option.splits)

lemma put_add_logs [simp]: "put d (add_logs ls w) = add_logs ls (put d w)"
  by (simp add: put_def add_logs_def split: option.splits)

lemma add_logs_add_logs [simp]: "add_logs ls (add_logs ls' w) = add_logs (ls' @ ls) w"
  by (simp add: add_logs_def)

lemma add_logs_Nil [simp]: "add_logs [] w = w"
  by (simp add: add_logs_def)

lemma log_error_add: "log_error m w = add_logs [ERROR m] w"
  by (simp add: log_error_def add_logs_def)

lemma log_warn_add: "log_warn e m w = add_logs (if dev e then [WARN m] else []) w"
  by (simp add: log_warn_def add_logs_def)

lemma log_info_add: "log_info e m w = add_logs (if dev e then [INFO m] else []) w"
  by (simp add: log_info_def add_logs_def)

lemma with_rows_with_rows [simp]: "with_rows rs (with_rows rs' d) = with_rows rs d"
  by (simp add: with_rows_def split: option.splits)

lemma hadith_table_with_rows:
  "hadith_table d = Some h \<Longrightarrow> hadith_table (with_rows rs d) = Some (h\<lparr>h_rows := rs\<rparr>)"
  by (simp add: with_rows_def)

lemma with_rows_same: "hadith_table d = Some h \<Longrightarrow> with_rows (h_rows h) d = d"
  by (cases d) (simp add: with_rows_def)

lemma insert_statement_db [simp]: "is_db_stmt (insert_statement item)"
  by (simp add: insert_statement_def is_db_stmt_def Let_def)

lemma exec_insert:
  assumes "hadith_table d = Some h" and "has_uid h"
  shows "exec_db (insert_statement item) d =
           Some ([], with_rows (upsert_row (idx_hadith_uid h) (h_rows h) (row_of item)) d)"
  using assms
  by (simp add: insert_statement_def Let_def with_rows_def upsert_row_def row_of_def uid_of_def)

lemma seed_loop_char:
  assumes "hadith_table (cur w) = Some h" and "has_uid h" and "rollback_free e items"
  shows "seed_loop e items (i, k) w =
           ((i + length (filter (accepted e) items),
             k + length (filter (\<lambda>it. \<not> accepted e it) items)),
            add_logs (seed_logs e items)
              (put (with_rows (seeded_rows e (idx_hadith_uid h) items (h_rows h)) (cur w)) w))"
  using assms
proof (induction items arbitrary: i k w h)
  case Nil
  then show ?case by (simp add: seeded_rows_def seed_logs_def with_rows_same)
next
  case (Cons item items)
  note h = Cons.prems(1,2)
  from Cons.prems(3) have rf: "rollback_free e items"
    and nr: "\<not> (isValidSeedItem item \<and> faulty e (insert_statement item) \<and>
                 rolls_back e (insert_statement item))"
    by (simp_all add: rollback_free_def)
  show ?case
  proof (cases "isValidSeedItem item")
    case False
    then have na: "\<not> accepted e item" by (simp add: accepted_def)
    from False na Cons.IH [OF h rf, of i "k + 1"] show ?thesis
      by (simp add: seeded_rows_def seed_logs_def)
  next
    case True
    show ?thesis
    proof (cases "faulty e (insert_statement item)")
      case f: True
      then have na: "\<not> accepted e item" by (simp add: accepted_def)
      from nr True f have ab: "aborted e (insert_statement item) w = w"
        by (simp add: aborted_def)
      let ?w1 = "add_logs (ERROR (SqlFailed (insert_statement item)) #
                   (if dev e then [WARN (SeedInsertFailed (s_id item) (s_collection item))] else [])) w"
      have r: "runSql e (insert_statement item) w =
                 (Inl (DBError ''SQL execution failed.''), log_error (SqlFailed (insert_statement item)) w)"
        using f ab by (simp add: runSql_db_stmt)
      have w1: "log_warn e (SeedInsertFailed (s_id item) (s_collection item))
                  (log_error (SqlFailed (insert_statement item)) w) = ?w1"
        by (simp add: log_warn_add log_error_add)
      have h1: "hadith_table (cur ?w1) = Some h" using h(1) by simp
      from Cons.IH [OF h1 h(2) rf, of i "k + 1"] True f na r w1 show ?thesis
        by (simp add: seeded_rows_def seed_logs_def)
    next
      case nf: False
      then have a: "accepted e item" using True by (simp add: accepted_def)
      let ?rs = "upsert_row (idx_hadith_uid h) (h_rows h) (row_of item)"
      let ?w1 = "put (with_rows ?rs (cur w)) w"
      have r: "runSql e (insert_statement item) w = (Inr [], ?w1)"
        using nf exec_insert [OF h] by (simp add: runSql_db_stmt)
      have h1: "hadith_table (cur ?w1) = Some (h\<lparr>h_rows := ?rs\<rparr>)"
        using h(1) by (simp add: hadith_table_with_rows)
      have h2: "has_uid (h\<lparr>h_rows := ?rs\<rparr>)" using h(2) by simp
      from Cons.IH [OF h1 h2 rf, of "i + 1" k] True a r nf show ?thesis
        by (simp add: seeded_rows_def seed_logs_def)
    qed
  qed
qed

lemma flag_of_rows:
  "meta_table d = Some m \<Longrightarrow>
     (case map (\<lambda>kv. RValue (snd kv)) (filter (\<lambda>kv. fst kv = js ''seeded'') m) of
        RValue v # _ \<Rightarrow> v | _ \<Rightarrow> None) = seeded_flag d"
  by (cases "filter (\<lambda>kv. fst kv = js ''seeded'') m") (simp_all add: seeded_flag_def)

lemma runSql_SelectSeeded_Inr_iff:
  "runSql e SelectSeeded w = (Inr rs, w') \<longleftrightarrow>
     \<not> faulty e SelectSeeded \<and> w' = w \<and>
     (\<exists>m. meta_table (cur w) = Some m \<and>
          rs = map (\<lambda>kv. RValue (snd kv)) (filter (\<lambda>kv. fst kv = js ''seeded'') m))"
  by (auto simp: runSql_db_stmt is_db_stmt_def split: option.splits)

lemma runSql_CountHadith_Inr_iff:
  "runSql e CountHadith w = (Inr rs, w') \<longleftrightarrow>
     \<not> faulty e CountHadith \<and> w' = w \<and>
     (\<exists>h. hadith_table (cur w) = Some h \<and> rs = [RCount (length (h_rows h))])"
  by (auto simp: runSql_db_stmt is_db_stmt_def split: option.splits)

lemma mark_seeded_flag: "meta_table d = Some m \<Longrightarrow> seeded_flag (mark_seeded d) = Some (js ''1'')"
  by (simp add: mark_seeded_def seeded_flag_def)

lemma runSql_ReplaceMetaSeeded_Inr_iff:
  "runSql e ReplaceMetaSeeded w = (Inr rs, w') \<longleftrightarrow>
     \<not> faulty e ReplaceMetaSeeded \<and> meta_table (cur w) \<noteq> None \<and> rs = [] \<and>
     w' = put (mark_seeded (cur w)) w"
  by (auto simp: runSql_db_stmt is_db_stmt_def mark_seeded_def split: option.splits)

lemma with_collections_Nil: "with_collections [] d = d"
  by (cases d) (simp add: with_collections_def split: option.splits)

lemma with_collections_Cons:
  "collections_table d = Some cs \<Longrightarrow>
   with_collections (c # cols) d =
     with_collections cols (d\<lparr>collections_table := Some (insert_or_ignore_collection cs
        \<lparr>c_id = c, c_name = c, c_version = None, c_description = None\<rparr>)\<rparr>)"
  by (simp add: with_collections_def)

lemma upsert_each_Inr_iff:
  assumes "collections_table (cur w) \<noteq> None"
  shows "upsert_each e cols w = (Inr (), w') \<longleftrightarrow>
           \<not> list_ex (\<lambda>c. faulty e (upsert_statement c)) cols \<and>
           w' = put (with_collections cols (cur w)) w"
  using assms
proof (induction cols arbitrary: w)
  case Nil
  show ?case by (auto simp: return_io_def with_collections_Nil)
next
  case (Cons c cols)
  from Cons.prems obtain cs where cs: "collections_table (cur w) = Some cs" by auto
  let ?d = "(cur w)\<lparr>collections_table := Some (insert_or_ignore_collection cs
        \<lparr>c_id = c, c_name = c, c_version = None, c_description = None\<rparr>)\<rparr>"
  have st: "is_db_stmt (upsert_statement c)" by (simp add: upsert_statement_def is_db_stmt_def)
  have u: "upsertCollection e c None None None = runSql e (upsert_statement c)"
    by (rule ext) (simp add: upsertCollection_def upsert_statement_def or_else_def or_null_def)
  show ?case
  proof (cases "faulty e (upsert_statement c)")
    case True
    then show ?thesis using st by (simp add: u bind_io_def runSql_db_stmt)
  next
    case False
    have r: "runSql e (upsert_statement c) w = (Inr [], put ?d w)"
      using False cs st by (simp add: runSql_db_stmt) (simp add: upsert_statement_def)
    have "collections_table (cur (put ?d w)) \<noteq> None" by simp
    from Cons.IH [OF this] False r cs show ?thesis
      by (simp add: u bind_io_def with_collections_Cons)
  qed
qed

lemma seed_work_Inr_iff:
  assumes "hadith_table (cur w) = Some h" and "has_uid h" and "meta_table (cur w) \<noteq> None"
    and "rollback_free e items"
  shows "seed_work e items w = (Inr counts, w') \<longleftrightarrow>
           \<not> faulty e ReplaceMetaSeeded \<and>
           counts = (length (filter (accepted e) items), length (filter (\<lambda>it. \<not> accepted e it) items)) \<and>
           w' = add_logs (seed_logs e items)
                  (put (mark_seeded (with_rows (seeded_rows e (idx_hadith_uid h) items (h_rows h)) (cur w))) w)"
proof -
  let ?w1 = "add_logs (seed_logs e items)
              (put (with_rows (seeded_rows e (idx_hadith_uid h) items (h_rows h)) (cur w)) w)"
  have m: "meta_table (cur ?w1) \<noteq> None"
    using assms(1,3) by (simp add: with_rows_def)
  show ?thesis
    unfolding seed_work_def seed_loop_char [OF assms(1,2,4), of 0 0]
    using m
    by (auto simp: bind_io_Inr_iff runSql_ReplaceMetaSeeded_Inr_iff return_io_def)
qed

lemma runSql_closed:
  "is_db_stmt s \<Longrightarrow> txn w = None \<Longrightarrow> txn (snd (runSql e s w)) = None"
  by (simp add: runSql_db_stmt log_error_def aborted_def split: option.splits)

lemma seed_loop_closed: "txn w = None \<Longrightarrow> txn (snd (seed_loop e items c w)) = None"
proof (induction items arbitrary: c w)
  case Nil then show ?case by simp
next
  case (Cons item items)
  obtain i k where c: "c = (i, k)" by (cases c)
  obtain r w1 where r: "runSql e (insert_statement item) w = (r, w1)" by force
  from runSql_closed [OF insert_statement_db Cons.prems, of e item] r
  have w1: "txn w1 = None" by simp
  then have w2: "txn (log_warn e (SeedInsertFailed (s_id item) (s_collection item)) w1) = None"
    by (simp add: log_warn_def)
  show ?case
    using Cons.IH [OF Cons.prems] Cons.IH [OF w1] Cons.IH [OF w2] r c
    by (cases r) simp_all
qed

lemma seed_loop_rolled_back:
  "\<not> rollback_free e items \<Longrightarrow> txn (snd (seed_loop e items c w)) = None"
proof (induction items arbitrary: c w)
  case Nil then show ?case by (simp add: rollback_free_def)
next
  case (Cons item items)
  obtain i k where c: "c = (i, k)" by (cases c)
  show ?case
  proof (cases "isValidSeedItem item \<and> faulty e (insert_statement item) \<and>
                rolls_back e (insert_statement item)")
    case True
    let ?w1 = "log_warn e (SeedInsertFailed (s_id item) (s_collection item))
                 (log_error (SqlFailed (insert_statement item)) (aborted e (insert_statement item) w))"
    have r: "runSql e (insert_statement item) w =
               (Inl (DBError ''SQL execution failed.''),
                log_error (SqlFailed (insert_statement item)) (aborted e (insert_statement item) w))"
      using True by (simp add: runSql_db_stmt)
    have "txn ?w1 = None" using True by (simp add: log_warn_def log_error_def aborted_def)
    from seed_loop_closed [OF this] True r c show ?thesis by simp
  next
    case False
    with Cons.prems have nf: "\<not> rollback_free e items" by (auto simp: rollback_free_def)
    obtain r w1 where r: "runSql e (insert_statement item) w = (r, w1)" by force
    show ?thesis
      using Cons.IH [OF nf] r c by (cases r) simp_all
  qed
qed

lemma seed_work_rolled_back:
  assumes "\<not> rollback_free e items" and "seed_work e items w = (r, w')"
  shows "txn w' = None"
proof -
  obtain c w1 where l: "seed_loop e items (0, 0) w = (c, w1)"
    by (cases "seed_loop e items (0, 0) w")
  from seed_loop_rolled_back [OF assms(1), of "(0, 0)" w] l have w1: "txn w1 = None" by simp
  have st: "is_db_stmt ReplaceMetaSeeded" by (simp add: is_db_stmt_def)
  obtain r2 w2 where r2: "runSql e ReplaceMetaSeeded w1 = (r2, w2)" by force
  from runSql_closed [OF st w1, of e] r2 have "txn w2 = None" by simp
  with assms(2) l r2 show ?thesis
    by (cases r2) (auto simp: seed_work_def bind_io_def return_io_def)
qed

lemma in_txn_runSql:
  assumes "is_db_stmt s" and "\<not> (faulty e s \<and> rolls_back e s)" and "in_txn D w"
  shows "in_txn D (snd (runSql e s w))"
  using assms
  by (auto simp: runSql_db_stmt in_txn_def put_def log_error_def aborted_def
      split: option.splits)

lemma seed_loop_in_txn:
  "rollback_free e items \<Longrightarrow> in_txn D w \<Longrightarrow> in_txn D (snd (seed_loop e items c w))"
proof (induction items arbitrary: c w)
  case Nil then show ?case by simp
next
  case (Cons item items)
  from Cons.prems(1) have rf: "rollback_free e items"
    and nr: "\<not> isValidSeedItem item \<or>
             \<not> (faulty e (insert_statement item) \<and> rolls_back e (insert_statement item))"
    by (auto simp: rollback_free_def)
  obtain i k where c: "c = (i, k)" by (cases c)
  show ?case
  proof (cases "isValidSeedItem item")
    case False
    with Cons.IH [OF rf Cons.prems(2)] c show ?thesis by simp
  next
    case True
    obtain r w1 where r: "runSql e (insert_statement item) w = (r, w1)" by force
    from in_txn_runSql [OF insert_statement_db _ Cons.prems(2), of e item] nr True r
    have w1: "in_txn D w1" by simp
    then have w2: "in_txn D (log_warn e (SeedInsertFailed (s_id item) (s_collection item)) w1)"
      by (simp add: in_txn_def log_warn_def)
    show ?thesis
      using Cons.IH [OF rf w1] Cons.IH [OF rf w2] r c True
      by (cases r) simp_all
  qed
qed

lemma txn_safe_seed_work: "rollback_free e items \<Longrightarrow> txn_safe D (seed_work e items)"
  unfolding txn_safe_def
proof (intro allI impI)
  fix w r w' assume rf: "rollback_free e items"
    and P: "in_txn D w" and s: "seed_work e items w = (r, w')"
  obtain c w1 where l: "seed_loop e items (0, 0) w = (c, w1)"
    by (cases "seed_loop e items (0, 0) w")
  from seed_loop_in_txn [OF rf P, of "(0, 0)"] l have w1: "in_txn D w1" by simp
  have "txn_safe D (bind_io (runSql e ReplaceMetaSeeded) (\<lambda>_. return_io c))"
    by (intro txn_safe_bind txn_safe_return txn_safe_runSql) (simp add: is_db_stmt_def)
  from txn_safeD [OF this w1] s l
  show "disk w' = D \<and> (\<forall>x. r = Inr x \<longrightarrow> txn w' \<noteq> None)" by (simp add: seed_work_def)
qed

lemma seed_fresh_Inr_iff:
  assumes "fresh_seedable w"
  shows "seedDatabaseIfEmpty e items w = (Inr (), w') \<longleftrightarrow>
           seed_faultless e items \<and> w' = seeded_world e items w"
proof -
  from assms obtain m cs h where
    n: "txn w = None" and m: "meta_table (disk w) = Some m" and
    fl: "seeded_flag (disk w) \<noteq> Some (js ''1'')" and cs: "collections_table (disk w) = Some cs" and
    h: "hadith_table (disk w) = Some h" "has_uid h" "h_rows h = []"
    by (auto simp: fresh_seedable_def split: option.splits)
  have cw: "cur w = disk w" using n by (simp add: cur_def)
  let ?cols = "seed_collections items"
  let ?w1 = "put (with_collections ?cols (disk w)) w"
  let ?w2 = "?w1\<lparr>txn := Some (disk ?w1)\<rparr>"
  let ?counts = "(length (filter (accepted e) items), length (filter (\<lambda>it. \<not> accepted e it) items))"
  let ?d3 = "mark_seeded (with_rows (seeded_rows e (idx_hadith_uid h) items []) (with_collections ?cols (disk w)))"
  let ?w3 = "add_logs (seed_logs e items) (put ?d3 ?w2)"
  have d1: "disk ?w1 = with_collections ?cols (disk w)" "txn ?w1 = None"
    using n by (simp_all add: put_def)
  have c2: "cur ?w2 = with_collections ?cols (disk w)" using d1 by (simp add: cur_def)
  have h2: "hadith_table (cur ?w2) = Some h" and m2: "meta_table (cur ?w2) \<noteq> None"
    using h m cs unfolding c2 by (simp_all add: with_collections_def)
  have t3: "txn ?w3 = Some ?d3" by (simp add: put_def add_logs_def)
  have tr: "\<And>counts w''. runTransaction e (seed_work e items) ?w1 = (Inr counts, w'') \<longleftrightarrow>
              \<not> faulty e Begin \<and> \<not> faulty e ReplaceMetaSeeded \<and> \<not> faulty e Commit \<and>
              rollback_free e items \<and>
              counts = ?counts \<and> w'' = ?w3\<lparr>disk := ?d3, txn := None\<rparr>"
  proof (cases "rollback_free e items")
    case True
    have sw: "\<And>counts w''. seed_work e items ?w2 = (Inr counts, w'') \<longleftrightarrow>
                \<not> faulty e ReplaceMetaSeeded \<and> counts = ?counts \<and> w'' = ?w3"
      using seed_work_Inr_iff [OF h2 h(2) m2 True] h(3) c2 by simp
    fix counts w''
    show "runTransaction e (seed_work e items) ?w1 = (Inr counts, w'') \<longleftrightarrow>
              \<not> faulty e Begin \<and> \<not> faulty e ReplaceMetaSeeded \<and> \<not> faulty e Commit \<and>
              rollback_free e items \<and>
              counts = ?counts \<and> w'' = ?w3\<lparr>disk := ?d3, txn := None\<rparr>"
      unfolding runTransaction_Inr_iff sw using d1(2) t3 True by auto
  next
    case False
    fix counts w''
    from seed_work_rolled_back [OF False]
    have "\<And>r w2 d. seed_work e items ?w2 = (r, w2) \<Longrightarrow> txn w2 \<noteq> Some d" by fastforce
    then show "runTransaction e (seed_work e items) ?w1 = (Inr counts, w'') \<longleftrightarrow>
              \<not> faulty e Begin \<and> \<not> faulty e ReplaceMetaSeeded \<and> \<not> faulty e Commit \<and>
              rollback_free e items \<and>
              counts = ?counts \<and> w'' = ?w3\<lparr>disk := ?d3, txn := None\<rparr>"
      unfolding runTransaction_Inr_iff using False by auto
  qed
  have fin: "log_info e (SeedCompleted (fst ?counts) (snd ?counts)) (?w3\<lparr>disk := ?d3, txn := None\<rparr>)
               = seeded_world e items w"
    using n h(1) by (cases w) (simp add: seeded_world_def log_info_add add_logs_def put_def)
  have flag: "(case map (\<lambda>kv. RValue (snd kv)) (filter (\<lambda>kv. fst kv = js ''seeded'') m) of
                 RValue v # _ \<Rightarrow> v | _ \<Rightarrow> None) \<noteq> Some (js ''1'')"
    using flag_of_rows [OF m] fl by simp
  have up: "\<And>w''. upsert_each e ?cols w = (Inr (), w'') \<longleftrightarrow>
              \<not> list_ex (\<lambda>c. faulty e (upsert_statement c)) ?cols \<and> w'' = ?w1"
    using upsert_each_Inr_iff [of w e ?cols] cs cw by simp
  have tail: "bind_io (upsert_each e ?cols)
                (\<lambda>_. bind_io (runTransaction e (seed_work e items))
                  (\<lambda>counts w. (Inr (), log_info e (SeedCompleted (fst counts) (snd counts)) w))) w
              = (Inr (), w') \<longleftrightarrow>
             \<not> list_ex (\<lambda>c. faulty e (upsert_statement c)) ?cols \<and>
             \<not> faulty e Begin \<and> \<not> faulty e ReplaceMetaSeeded \<and> \<not> faulty e Commit \<and>
             rollback_free e items \<and>
             w' = seeded_world e items w"
    using fin by (auto simp: bind_io_Inr_iff up tr)
  show ?thesis
    unfolding seedDatabaseIfEmpty_def seed_collections_def [symmetric]
    apply (subst bind_io_Inr_iff)
    apply (simp add: runSql_SelectSeeded_Inr_iff cw m flag Let_def del: bind_io_Inr_iff)
    apply (subst bind_io_Inr_iff)
    apply (simp add: runSql_CountHadith_Inr_iff cw h tail seed_faultless_def)
    done
qed


lemma seed_head:
  "seedDatabaseIfEmpty e items w =
     (if faulty e SelectSeeded then sql_failed e SelectSeeded w
      else if meta_table (cur w) = None then sql_refused SelectSeeded w
      else if seeded_flag (cur w) = Some (js ''1'') then (Inr (), log_info e SeedSkippedFlag w)
      else if faulty e CountHadith then sql_failed e CountHadith w
      else (case hadith_table (cur w) of
              None \<Rightarrow> sql_refused CountHadith w
            | Some h \<Rightarrow>
                if h_rows h \<noteq> [] then
                  (if faulty e ReplaceMetaSeeded then sql_failed e ReplaceMetaSeeded w
                   else (Inr (), log_info e SeedSkippedPopulated (put (mark_seeded (cur w)) w)))
                else fresh_import e items w))"
proof (cases "faulty e SelectSeeded \<or> meta_table (cur w) = None")
  case True
  then show ?thesis
    by (auto simp: seedDatabaseIfEmpty_def bind_io_def runSql_db_stmt is_db_stmt_def sql_failed_def
        sql_refused_def)
next
  case False
  then obtain m where m: "meta_table (cur w) = Some m" and f: "\<not> faulty e SelectSeeded" by auto
  have s: "runSql e SelectSeeded w =
             (Inr (map (\<lambda>kv. RValue (snd kv)) (filter (\<lambda>kv. fst kv = js ''seeded'') m)), w)"
    using m f by (simp add: runSql_db_stmt is_db_stmt_def)
  show ?thesis
  proof (cases "seeded_flag (cur w) = Some (js ''1'')")
    case True
    with m f s show ?thesis
      by (simp add: seedDatabaseIfEmpty_def bind_io_def flag_of_rows [OF m])
  next
    case nf: False
    have step: "seedDatabaseIfEmpty e items w =
       bind_io (runSql e CountHadith)
              (\<lambda>rs2.
                 let existingCount = (case rs2 of RCount n # _ \<Rightarrow> n | _ \<Rightarrow> 0) in
                 if existingCount > 0 then
                   bind_io (runSql e ReplaceMetaSeeded)
                     (\<lambda>_ w. (Inr (), log_info e SeedSkippedPopulated w))
                 else fresh_import e items) w"
      unfolding seedDatabaseIfEmpty_def fresh_import_def
      by (subst bind_io_def) (simp add: s flag_of_rows [OF m] nf Let_def)
    show ?thesis
    proof (cases "faulty e CountHadith \<or> hadith_table (cur w) = None")
      case True
      then show ?thesis using m f nf unfolding step
        by (auto simp: bind_io_def runSql_db_stmt is_db_stmt_def sql_failed_def sql_refused_def)
    next
      case False
      then obtain h where h: "hadith_table (cur w) = Some h" and fc: "\<not> faulty e CountHadith" by auto
      have c: "runSql e CountHadith w = (Inr [RCount (length (h_rows h))], w)"
        using h fc by (simp add: runSql_db_stmt is_db_stmt_def)
      show ?thesis
      proof (cases "h_rows h = []")
        case True
        then show ?thesis using m f nf h fc unfolding step
          by (subst bind_io_def) (simp add: c)
      next
        case False
        then show ?thesis using m f nf h fc unfolding step
          by (subst bind_io_def)
            (simp add: c bind_io_def runSql_db_stmt is_db_stmt_def sql_failed_def mark_seeded_def)
      qed
    qed
  qed
qed

lemma seed_untouched_log_error: "seed_untouched d w \<Longrightarrow> seed_untouched d (log_error m w)"
  by (simp add: seed_untouched_def log_error_def)

lemma preserves_upsert: "preserves (seed_untouched d) (runSql e (upsert_statement c))"
  unfolding preserves_def
  by (auto simp: runSql_db_stmt upsert_statement_def is_db_stmt_def seed_untouched_def put_def
      cur_def log_error_def aborted_def split: if_splits option.splits)

lemma preserves_upsert_each: "preserves (seed_untouched d) (upsert_each e cols)"
proof (induction cols)
  case Nil show ?case by (simp add: preserves_return)
next
  case (Cons c cols)
  have u: "upsertCollection e c None None None = runSql e (upsert_statement c)"
    by (rule ext) (simp add: upsertCollection_def upsert_statement_def or_else_def or_null_def)
  show ?case using Cons by (simp add: u preserves_bind preserves_upsert)
qed

lemma fresh_import_Inl:
  assumes "fresh_import e items w = (Inl err, w')" and "txn w = None"
    and "rollback_free e items"
  shows "seed_untouched (disk w) w'"
proof -
  let ?cols = "unique_in_order (map s_collection (filter isValidSeedItem items))"
  obtain r1 w1 where u: "upsert_each e ?cols w = (r1, w1)" by force
  have "seed_untouched (disk w) w" using assms(2) by (simp add: seed_untouched_def)
  from preservesD [OF preserves_upsert_each this u] have w1: "seed_untouched (disk w) w1" .
  show ?thesis
  proof (cases r1)
    case (Inl x)
    with u assms(1) w1 show ?thesis by (simp add: fresh_import_def bind_io_def)
  next
    case (Inr x)
    obtain r2 w2 where t: "runTransaction e (seed_work e items) w1 = (r2, w2)"
      by (cases "runTransaction e (seed_work e items) w1")
    show ?thesis
    proof (cases r2)
      case (Inl y)
      from w1 have "txn w1 = None" by (simp add: seed_untouched_def)
      from runTransaction_Inl [OF t [unfolded Inl] this txn_safe_seed_work [OF assms(3)]]
      have "disk w2 = disk w1" "txn w2 = None" by simp_all
      moreover have "w' = w2" using u Inr t Inl assms(1) by (simp add: fresh_import_def bind_io_def)
      ultimately show ?thesis using w1 by (simp add: seed_untouched_def)
    next
      case (Inr y)
      with u \<open>r1 = Inr x\<close> t assms(1) show ?thesis by (simp add: fresh_import_def bind_io_def)
    qed
  qed
qed

lemma seed_Inl:
  assumes "seedDatabaseIfEmpty e items w = (Inl err, w')" and "txn w = None"
    and "rollback_free e items"
  shows "seed_untouched (disk w) w'"
proof -
  have base: "seed_untouched (disk w) w" using assms(2) by (simp add: seed_untouched_def)
  have sf: "\<And>s. sql_failed e s w = (Inl err, w') \<Longrightarrow> seed_untouched (disk w) w'"
    using base assms(2) by (auto simp: sql_failed_def seed_untouched_log_error aborted_closed)
  have sr: "\<And>s. sql_refused s w = (Inl err, w') \<Longrightarrow> seed_untouched (disk w) w'"
    using base by (auto simp: sql_refused_def seed_untouched_log_error)
  from assms(1) show ?thesis
    unfolding seed_head
    by (auto split: if_splits option.splits dest: sf sr fresh_import_Inl [OF _ assms(2,3)])
qed

lemma row_of_uid_of [simp]: "h_uid (row_of item) = Some (uid_of item)"
  by (simp add: row_of_def)

lemma seeded_rows_Nil [simp]: "seeded_rows e u [] rs = rs"
  by (simp add: seeded_rows_def)

lemma seeded_rows_Cons:
  "seeded_rows e u (item # items) rs =
     seeded_rows e u items (if accepted e item then upsert_row u rs (row_of item) else rs)"
  by (simp add: seeded_rows_def)

lemma seeded_rows_all:
  assumes "\<forall>r \<in> set rs. P r" and "\<forall>item \<in> set items. P (row_of item)"
  shows "\<forall>r \<in> set (seeded_rows e u items rs). P r"
  using assms
proof (induction items arbitrary: rs)
  case Nil then show ?case by simp
next
  case (Cons item items)
  have "\<forall>r \<in> set (if accepted e item then upsert_row u rs (row_of item) else rs). P r"
    using Cons.prems by (auto simp: upsert_row_def)
  from Cons.IH [OF this] Cons.prems(2) show ?case by (simp add: seeded_rows_Cons)
qed

lemma upsert_row_distinct:
  "distinct (map h_uid rs) \<Longrightarrow> distinct (map h_uid (upsert_row True rs r))"
  by (auto simp: upsert_row_def distinct_map_filter)

lemma seeded_rows_distinct:
  "distinct (map h_uid rs) \<Longrightarrow> distinct (map h_uid (seeded_rows e True items rs))"
proof (induction items arbitrary: rs)
  case Nil then show ?case by simp
next
  case (Cons item items)
  have "distinct (map h_uid (if accepted e item then upsert_row True rs (row_of item) else rs))"
    using Cons.prems by (simp add: upsert_row_distinct)
  from Cons.IH [OF this] show ?case by (simp add: seeded_rows_Cons)
qed

lemma upsert_row_keeps: "x \<in> h_uid ` set rs \<Longrightarrow> x \<in> h_uid ` set (upsert_row u rs r)"
  by (cases "x = h_uid r") (auto simp: upsert_row_def)

lemma seeded_rows_keeps:
  "x \<in> h_uid ` set rs \<Longrightarrow> x \<in> h_uid ` set (seeded_rows e u items rs)"
proof (induction items arbitrary: rs)
  case Nil then show ?case by simp
next
  case (Cons item items)
  have "x \<in> h_uid ` set (if accepted e item then upsert_row u rs (row_of item) else rs)"
    using Cons.prems by (simp add: upsert_row_keeps)
  from Cons.IH [OF this] show ?case by (simp add: seeded_rows_Cons)
qed

lemma seeded_rows_covers:
  "item \<in> set items \<Longrightarrow> accepted e item \<Longrightarrow>
     Some (uid_of item) \<in> h_uid ` set (seeded_rows e u items rs)"
proof (induction items arbitrary: rs)
  case Nil then show ?case by simp
next
  case (Cons x items)
  show ?case
  proof (cases "item = x")
    case True
    have "Some (uid_of item) \<in> h_uid ` set (upsert_row u rs (row_of item))"
      by (simp add: upsert_row_def)
    from seeded_rows_keeps [OF this] True Cons.prems(2) show ?thesis
      by (simp add: seeded_rows_Cons)
  next
    case False
    with Cons.prems have "item \<in> set items" by simp
    from Cons.IH [OF this Cons.prems(2)] show ?thesis by (simp add: seeded_rows_Cons)
  qed
qed

lemma distinct_count_one:
  "distinct (map f rs) \<Longrightarrow> x \<in> f ` set rs \<Longrightarrow> length (filter (\<lambda>r. f r = x) rs) = 1"
proof (induction rs)
  case Nil then show ?case by simp
next
  case (Cons r rs)
  show ?case
  proof (cases "f r = x")
    case True
    from Cons.prems(1) have "f r \<notin> f ` set rs" by simp
    then have "\<forall>y \<in> set rs. f y \<noteq> x" using True by blast
    then have "filter (\<lambda>r. f r = x) rs = []" by (simp add: filter_empty_conv)
    with True show ?thesis by simp
  next
    case False
    with Cons show ?thesis by auto
  qed
qed

lemma seeded_rows_pair:
  "accepted e a \<Longrightarrow> accepted e b \<Longrightarrow> uid_of a = uid_of b \<Longrightarrow>
     seeded_rows e True [a, b] [] = [row_of b]"
  by (simp add: seeded_rows_def upsert_row_def)

lemma disk_seeded_world:
  assumes "fresh_seedable w" and "hadith_table (disk w) = Some h"
  shows "hadith_table (disk (seeded_world e items w)) =
           Some (h\<lparr>h_rows := seeded_rows e (idx_hadith_uid h) items []\<rparr>)"
    and "seeded_flag (disk (seeded_world e items w)) = Some (js ''1'')"
    and "txn (seeded_world e items w) = None"
proof -
  from assms(1) obtain m cs where m: "meta_table (disk w) = Some m"
    and cs: "collections_table (disk w) = Some cs" and n: "txn w = None"
    by (auto simp: fresh_seedable_def)
  let ?d1 = "with_collections (seed_collections items) (disk w)"
  let ?d2 = "with_rows (seeded_rows e (idx_hadith_uid h) items []) ?d1"
  have h1: "hadith_table ?d1 = Some h" and m1: "meta_table ?d1 = Some m"
    using assms(2) cs m by (simp_all add: with_collections_def)
  have h2: "hadith_table ?d2 = Some (h\<lparr>h_rows := seeded_rows e (idx_hadith_uid h) items []\<rparr>)"
    and m2: "meta_table ?d2 = Some m"
    using h1 m1 by (simp_all add: with_rows_def)
  have d: "disk (seeded_world e items w) = mark_seeded ?d2"
    using assms(2) by (simp add: seeded_world_def add_logs_def)
  show "hadith_table (disk (seeded_world e items w)) =
           Some (h\<lparr>h_rows := seeded_rows e (idx_hadith_uid h) items []\<rparr>)"
    unfolding d using h2 m2 by (simp add: mark_seeded_def)
  show "seeded_flag (disk (seeded_world e items w)) = Some (js ''1'')"
    unfolding d by (rule mark_seeded_flag [OF m2])
  show "txn (seeded_world e items w) = None"
    using n by (simp add: seeded_world_def add_logs_def)
qed

lemma console_seeded_world:
  "console (seeded_world e items w) =
     console w @ seed_logs e items @
       (if dev e then [INFO (SeedCompleted (length (filter (accepted e) items))
                              (length (filter (\<lambda>it. \<not> accepted e it) items)))] else [])"
  by (simp add: seeded_world_def add_logs_def)

section \<open>The search after a seeding\<close>

lemma normalize_basmala:
  "normalizeArabicText basmala = [0x0628, 0x0633, 0x0645, 0x20, 0x0627, 0x0644, 0x0644, 0x0647]"
  by (simp add: basmala_def text_eval)

lemma tokenize_basmala:
  "tokenizeArabicText basmala = [[0x0628, 0x0633, 0x0645], [0x0627, 0x0644, 0x0644, 0x0647]]"
  by (simp add: tokenizeArabicText_def normalize_basmala filter_Boolean_def is_space_def)

lemma row_of_basmala: "row_of (basmala_item i c) = basmala_row i c"
  by (simp add: row_of_def basmala_item_def basmala_row_def normalize_basmala normalizedTokens_def
      tokenize_basmala tokensToSearchKeys_def JSON_stringify_def json_char_def uid_of_def)

lemma normalize_bism: "normalizeArabicText [0x0628, 0x0633, 0x0645] = [0x0628, 0x0633, 0x0645]"
  by (simp add: text_eval)

lemma fresh_migrated:
  "runMigrations (no_faults dv) fresh_world =
     (Inr (), log_info (no_faults dv) MigrationOK (migrated_world [] []))"
proof -
  have m: "migrate_db (disk fresh_world) = Some (disk (migrated_world [] []))"
    by (simp add: fresh_world_def empty_db_def migrate_db_def table_columns_def uid_unique_def
        migrated_world_def distinct_collections_def)
  have f: "\<forall>s. \<not> faulty (no_faults dv) s" by (simp add: no_faults_def)
  have w: "set_pragmas fresh_world\<lparr>disk := disk (migrated_world [] [])\<rparr> = migrated_world [] []"
    by (simp add: set_pragmas_def fresh_world_def migrated_world_def)
  from runMigrations_ok [OF m _ f] w show ?thesis by (simp add: fresh_world_def)
qed

lemma fresh_seedable_migrated:
  "fresh_seedable (log_info e MigrationOK (migrated_world [] cs))"
  by (simp add: fresh_seedable_def log_info_def migrated_world_def seeded_flag_def)

lemma seed_faultless_no_faults: "seed_faultless (no_faults dv) items"
  by (simp add: seed_faultless_def rollback_free_def no_faults_def list_ex_iff)

lemma search_after_seed:
  assumes "i \<noteq> []" and "c \<noteq> []"
  shows "\<exists>w1 w2.
           runMigrations (no_faults dv) fresh_world = (Inr (), w1) \<and>
           seedDatabaseIfEmpty (no_faults dv) [basmala_item i c] w1 = (Inr (), w2) \<and>
           searchHadithByText (no_faults dv) bism w2 = (Inr [basmala_row i c], w2)"
proof -
  let ?e = "no_faults dv"
  let ?w1 = "log_info ?e MigrationOK (migrated_world [] [])"
  let ?w2 = "seeded_world ?e [basmala_item i c] ?w1"
  let ?h = "\<lparr>has_uid = True, idx_hadith_collection = True,
          idx_hadith_search = True, idx_hadith_uid = True, h_rows = []\<rparr>"
  have fs: "fresh_seedable ?w1" by (rule fresh_seedable_migrated)
  have h1: "hadith_table (disk ?w1) = Some ?h" by (simp add: log_info_def migrated_world_def)
  have acc: "accepted ?e (basmala_item i c)"
    using assms by (simp add: accepted_def isValidSeedItem_def basmala_item_def no_faults_def basmala_def)
  have rows: "seeded_rows ?e True [basmala_item i c] [] = [basmala_row i c]"
    using acc by (simp add: seeded_rows_def upsert_row_def row_of_basmala)
  from disk_seeded_world(1,3) [OF fs h1, of ?e "[basmala_item i c]"] rows
  have h2: "hadith_table (cur ?w2) = Some (?h\<lparr>h_rows := [basmala_row i c]\<rparr>)"
    by (simp add: cur_def)
  have seed: "seedDatabaseIfEmpty ?e [basmala_item i c] ?w1 = (Inr (), ?w2)"
    using seed_fresh_Inr_iff [OF fs] seed_faultless_no_faults by blast
  have nf: "\<not> faulty ?e (SelectHadithLike (js ''%'' @ normalizeArabicText bism @ js ''%''))"
    by (simp add: no_faults_def)
  have sub: "sublist (normalizeArabicText bism) (h_search_keys (basmala_row i c))"
    by (rule prefix_imp_sublist) (simp add: bism_def normalize_bism basmala_row_def)
  from search_general [OF h2 nf] sub
  have "searchHadithByText ?e bism ?w2 = (Inr [basmala_row i c], ?w2)" by simp
  with fresh_migrated [of dv] seed show ?thesis by blast
qed

lemma count_list_insort_key: "count_list (insort_key f x xs) y = count_list (x # xs) y"
  by (induction xs) auto

lemma count_list_sort_key: "count_list (sort_key f xs) y = count_list xs y"
  by (induction xs) (simp_all add: count_list_insort_key)

lemma order_by_collection_id_ordered:
  assumes "a < b" and "b < length (sort_key order_key rs)"
  shows "utf8 (h_collection (sort_key order_key rs ! a)) < utf8 (h_collection (sort_key order_key rs ! b)) \<or>
         utf8 (h_collection (sort_key order_key rs ! a)) = utf8 (h_collection (sort_key order_key rs ! b)) \<and>
         cast_integer (h_id (sort_key order_key rs ! a)) \<le> cast_integer (h_id (sort_key order_key rs ! b))"
proof -
  let ?xs = "sort_key order_key rs"
  have "sorted (map order_key ?xs)" by (rule sorted_sort_key)
  from sorted_nth_mono [OF this, of a b] assms
  have "order_key (?xs ! a) \<le> order_key (?xs ! b)" by simp
  then show ?thesis by (auto simp: order_key_def less_eq_prod_def)
qed

lemma digits_value_snoc: "digits_value (ds @ [d]) = digits_value ds * 10 + int (d - 0x30)"
  by (simp add: digits_value_def)

lemma decimal_digits: "\<forall>c \<in> set (decimal n). is_digit c"
proof (induction n rule: decimal.induct)
  case (1 n)
  show ?case
  proof (cases "n < 10")
    case True
    then show ?thesis by (subst decimal.simps) (simp add: is_digit_def)
  next
    case False
    have "n mod 10 < 10" by simp
    then have "is_digit (0x30 + n mod 10)" unfolding is_digit_def by linarith
    with 1 False show ?thesis by (subst decimal.simps) simp
  qed
qed

lemma decimal_value: "digits_value (decimal n) = int n"
proof (induction n rule: decimal.induct)
  case (1 n)
  show ?case
  proof (cases "n < 10")
    case True
    then show ?thesis by (subst decimal.simps) (simp add: digits_value_def)
  next
    case False
    with 1 have "digits_value (decimal (n div 10)) = int (n div 10)" by simp
    with False show ?thesis
      by (subst decimal.simps) (simp add: digits_value_snoc zdiv_int zmod_int)
  qed
qed

lemma decimal_not_Nil: "decimal n \<noteq> []"
  by (subst decimal.simps) simp

lemma cast_integer_digits:
  assumes "ds \<noteq> []" and "\<forall>c \<in> set ds. is_digit c"
  shows "cast_integer ds = min (2 ^ 63 - 1) (digits_value ds)"
proof -
  from assms obtain d ds' where ds: "ds = d # ds'" and d: "is_digit d" by (cases ds) auto
  from d have "\<not> sqlite_isspace d" "d \<noteq> 0x2D" "d \<noteq> 0x2B"
    by (auto simp: is_digit_def sqlite_isspace_def)
  then have 1: "dropWhile sqlite_isspace ds = ds" "hd ds \<noteq> 0x2D" "hd ds \<noteq> 0x2B"
    by (simp_all add: ds)
  have 2: "takeWhile is_digit ds = ds" using assms(2) by simp
  have "0 \<le> digits_value xs" for xs
    unfolding digits_value_def
    by (induction xs rule: rev_induct) simp_all
  then have 3: "0 \<le> digits_value ds" .
  show ?thesis
    using 1(2,3) 3 by (simp add: cast_integer_def Let_def 1(1) 2)
qed

lemma cast_integer_decimal: "cast_integer (decimal n) = min (2 ^ 63 - 1) (int n)"
  using cast_integer_digits [OF decimal_not_Nil decimal_digits, of n] by (simp add: decimal_value)

lemma order_key_basmala_row: "order_key (basmala_row i c) = (utf8 c, cast_integer i)"
  by (simp add: order_key_def basmala_row_def)

lemma utf8_eval:
  "utf8 (js ''Muslim'') = [0x4D, 0x75, 0x73, 0x6C, 0x69, 0x6D]"
  "utf8 (js ''Bukhari'') = [0x42, 0x75, 0x6B, 0x68, 0x61, 0x72, 0x69]"
  "utf8 [0xD83D, 0xDE00] = [0xF0, 0x9F, 0x98, 0x80]"
  "utf8 [0xE000] = [0xEE, 0x80, 0x80]"
  by (simp_all add: utf8_def js_def utf8_bytes_def)

lemma cast_integer_eval:
  "cast_integer (js ''1'') = 1" "cast_integer (js ''2'') = 2" "cast_integer (js ''10'') = 10"
  by (simp_all add: cast_integer_def js_def Let_def sqlite_isspace_def is_digit_def
      digits_value_def)

lemma order_key_eval:
  "order_key (basmala_row (js ''1'') (js ''Muslim'')) = ([0x4D, 0x75, 0x73, 0x6C, 0x69, 0x6D], 1)"
  "order_key (basmala_row (js ''10'') (js ''Bukhari'')) = ([0x42, 0x75, 0x6B, 0x68, 0x61, 0x72, 0x69], 10)"
  "order_key (basmala_row (js ''2'') (js ''Bukhari'')) = ([0x42, 0x75, 0x6B, 0x68, 0x61, 0x72, 0x69], 2)"
  "order_key legacy_row = ([0x42, 0x75, 0x6B, 0x68, 0x61, 0x72, 0x69], 1)"
  "order_key (basmala_row (js ''1'') [0xD83D, 0xDE00]) = ([0xF0, 0x9F, 0x98, 0x80], 1)"
  "order_key (basmala_row (js ''1'') [0xE000]) = ([0xEE, 0x80, 0x80], 1)"
  by (simp_all add: order_key_basmala_row utf8_eval cast_integer_eval)
    (simp add: order_key_def legacy_row_def utf8_eval cast_integer_eval)

lemma sorted_unordered_rows:
  "sort_key order_key unordered_rows =
     [legacy_row, basmala_row (js ''2'') (js ''Bukhari''), basmala_row (js ''10'') (js ''Bukhari''),
      basmala_row (js ''1'') (js ''Muslim'')]"
  "sort_key order_key [basmala_row (js ''1'') (js ''Muslim''), basmala_row (js ''10'') (js ''Bukhari''),
      basmala_row (js ''2'') (js ''Bukhari'')] =
     [basmala_row (js ''2'') (js ''Bukhari''), basmala_row (js ''10'') (js ''Bukhari''),
      basmala_row (js ''1'') (js ''Muslim'')]"
  "sort_key order_key astral_rows =
     [basmala_row (js ''1'') [0xE000], basmala_row (js ''1'') [0xD83D, 0xDE00]]"
  by (simp_all add: unordered_rows_def astral_rows_def order_key_eval less_eq_prod_def)

lemma not_sublist_longer: "length ys < length xs \<Longrightarrow> \<not> sublist xs ys"
  by (auto dest: sublist_length_le)

lemma bism_found:
  "filter (\<lambda>r. sublist (normalizeArabicText bism) (h_search_keys r)) unordered_rows =
     [basmala_row (js ''1'') (js ''Muslim''), basmala_row (js ''10'') (js ''Bukhari''),
      basmala_row (js ''2'') (js ''Bukhari'')]"
  "filter (\<lambda>r. sublist (normalizeArabicText bism) (h_search_keys r)) astral_rows = astral_rows"
  by (simp_all add: unordered_rows_def astral_rows_def bism_def normalize_bism basmala_row_def
      legacy_row_def not_sublist_longer)

lemma stored_rows:
  "hadith_table (cur (store_world m cs rs)) =
     Some \<lparr>has_uid = True, idx_hadith_collection = True, idx_hadith_search = True,
            idx_hadith_uid = True, h_rows = rs\<rparr>"
  by (simp add: store_world_def cur_def)

text \<open>
  C2. searchHadithByText normalizes the query and finds the rows of the hadith table whose
  \<^verbatim>\<open>search_keys\<close> hold the normalized query as a contiguous substring: each of those
  rows as often as it is in the table, and no other row. It returns the first 100 of them
  in the order of the query. In that order a row comes before another one only if its
  collection is smaller in the byte order of UTF-8, which is how SQLite compares texts,
  or the collections are encoded alike and the integer read from its \<^verbatim>\<open>id\<close> is not
  greater; the integer read from the decimal numeral of \<open>n\<close> is \<open>n\<close>, up to the
  bound of 64 bits, so the id 2 comes before the id 10. A fresh database that is migrated
  and seeded with one item whose text is the basmala of the specification (\<open>basmala\<close>:
  ba, kasra, sin, sukun, mim, kasra, space, alef, lam, lam, ha), under any id and
  collection that are not empty, gives that item's row for the query ba, sin, mim
  (\<open>bism\<close>).
\<close>

theorem searchHadithByText_substring:
  assumes "hadith_table (cur w) = Some h"
    and "\<not> faulty e (SelectHadithLike (js ''%'' @ normalizeArabicText q @ js ''%''))"
    and "i \<noteq> []" and "c \<noteq> []"
  shows "(\<exists>found.
            searchHadithByText e q w = (Inr (take 100 found), w) \<and>
            found = sort_key order_key
                      (filter (\<lambda>r. sublist (normalizeArabicText q) (h_search_keys r)) (h_rows h)) \<and>
            (\<forall>r. count_list found r =
                   count_list (filter (\<lambda>r. sublist (normalizeArabicText q) (h_search_keys r))
                                 (h_rows h)) r) \<and>
            (\<forall>a b. a < b \<and> b < length found \<longrightarrow>
               utf8 (h_collection (found ! a)) < utf8 (h_collection (found ! b)) \<or>
               utf8 (h_collection (found ! a)) = utf8 (h_collection (found ! b)) \<and>
               cast_integer (h_id (found ! a)) \<le> cast_integer (h_id (found ! b)))) \<and>
         cast_integer (decimal n) = min (2 ^ 63 - 1) (int n) \<and>
         (\<exists>w1 w2.
            runMigrations (no_faults dv) fresh_world = (Inr (), w1) \<and>
            seedDatabaseIfEmpty (no_faults dv) [basmala_item i c] w1 = (Inr (), w2) \<and>
            searchHadithByText (no_faults dv) bism w2 = (Inr [basmala_row i c], w2))"
proof (intro conjI)
  let ?found = "sort_key order_key
                  (filter (\<lambda>r. sublist (normalizeArabicText q) (h_search_keys r)) (h_rows h))"
  have "searchHadithByText e q w = (Inr (take 100 ?found), w)"
    using assms(1,2) by (rule search_general)
  moreover have "\<forall>r. count_list ?found r =
                   count_list (filter (\<lambda>r. sublist (normalizeArabicText q) (h_search_keys r))
                                 (h_rows h)) r"
    by (simp add: count_list_sort_key)
  moreover have "\<forall>a b. a < b \<and> b < length ?found \<longrightarrow>
               utf8 (h_collection (?found ! a)) < utf8 (h_collection (?found ! b)) \<or>
               utf8 (h_collection (?found ! a)) = utf8 (h_collection (?found ! b)) \<and>
               cast_integer (h_id (?found ! a)) \<le> cast_integer (h_id (?found ! b))"
    using order_by_collection_id_ordered by blast
  ultimately show "\<exists>found.
            searchHadithByText e q w = (Inr (take 100 found), w) \<and>
            found = sort_key order_key
                      (filter (\<lambda>r. sublist (normalizeArabicText q) (h_search_keys r)) (h_rows h)) \<and>
            (\<forall>r. count_list found r =
                   count_list (filter (\<lambda>r. sublist (normalizeArabicText q) (h_search_keys r))
                                 (h_rows h)) r) \<and>
            (\<forall>a b. a < b \<and> b < length found \<longrightarrow>
               utf8 (h_collection (found ! a)) < utf8 (h_collection (found ! b)) \<or>
               utf8 (h_collection (found ! a)) = utf8 (h_collection (found ! b)) \<and>
               cast_integer (h_id (found ! a)) \<le> cast_integer (h_id (found ! b)))"
    by blast
  show "cast_integer (decimal n) = min (2 ^ 63 - 1) (int n)" by (rule cast_integer_decimal)
  show "\<exists>w1 w2.
            runMigrations (no_faults dv) fresh_world = (Inr (), w1) \<and>
            seedDatabaseIfEmpty (no_faults dv) [basmala_item i c] w1 = (Inr (), w2) \<and>
            searchHadithByText (no_faults dv) bism w2 = (Inr [basmala_row i c], w2)"
    using assms(3,4) by (rule search_after_seed)
qed

theorem searchHadithByText_substring_witness:
  "searchHadithByText (no_faults False) bism (store_world [] [] unordered_rows) =
     (Inr [basmala_row (js ''2'') (js ''Bukhari''), basmala_row (js ''10'') (js ''Bukhari''),
           basmala_row (js ''1'') (js ''Muslim'')],
      store_world [] [] unordered_rows) \<and>
   searchHadithByText (no_faults False) bism (store_world [] [] astral_rows) =
     (Inr [basmala_row (js ''1'') [0xE000], basmala_row (js ''1'') [0xD83D, 0xDE00]],
      store_world [] [] astral_rows) \<and>
   cast_integer (js ''2'') = 2 \<and> cast_integer (js ''10'') = 10 \<and>
   utf8 [0xE000] < utf8 [0xD83D, 0xDE00]"
proof -
  have nf: "\<And>p. \<not> faulty (no_faults False) (SelectHadithLike p)" by (simp add: no_faults_def)
  have ne: "js ''1'' \<noteq> []" "js ''Bukhari'' \<noteq> []" by (simp_all add: js_def)
  have d: "decimal 2 = js ''2''" "decimal 10 = js ''10''"
    by (simp_all add: decimal.simps js_def)
  note t = searchHadithByText_substring [OF stored_rows nf ne, where q = bism and dv = False]
  from t [of "[]" "[]" unordered_rows 2] obtain found where
    "searchHadithByText (no_faults False) bism (store_world [] [] unordered_rows) =
       (Inr (take 100 found), store_world [] [] unordered_rows)"
    "found = sort_key order_key
               (filter (\<lambda>r. sublist (normalizeArabicText bism) (h_search_keys r)) unordered_rows)"
    by auto
  then have 1: "searchHadithByText (no_faults False) bism (store_world [] [] unordered_rows) =
     (Inr [basmala_row (js ''2'') (js ''Bukhari''), basmala_row (js ''10'') (js ''Bukhari''),
           basmala_row (js ''1'') (js ''Muslim'')],
      store_world [] [] unordered_rows)"
    unfolding bism_found sorted_unordered_rows by simp
  from t [of "[]" "[]" astral_rows 10] obtain found' where
    "searchHadithByText (no_faults False) bism (store_world [] [] astral_rows) =
       (Inr (take 100 found'), store_world [] [] astral_rows)"
    "found' = sort_key order_key
               (filter (\<lambda>r. sublist (normalizeArabicText bism) (h_search_keys r)) astral_rows)"
    by auto
  then have 2: "searchHadithByText (no_faults False) bism (store_world [] [] astral_rows) =
     (Inr [basmala_row (js ''1'') [0xE000], basmala_row (js ''1'') [0xD83D, 0xDE00]],
      store_world [] [] astral_rows)"
    unfolding bism_found sorted_unordered_rows by simp
  from t [of "[]" "[]" "[]" 2] have 3: "cast_integer (js ''2'') = 2" by (simp add: d)
  from t [of "[]" "[]" "[]" 10] have 5: "cast_integer (js ''10'') = 10" by (simp add: d)
  have 4: "utf8 [0xE000] < utf8 [0xD83D, 0xDE00]" by (simp add: utf8_eval)
  from 1 2 3 4 5 show ?thesis by simp
qed

text \<open>
  C10. A query whose normalization is empty, as that of every query without a character
  of the Arabic block is, makes the pattern \<^verbatim>\<open>%%\<close>, which every row matches: the search
  finds every row of the table and returns the first 100 in the order of the query
  (the collection in the byte order of UTF-8, then the integer read from \<^verbatim>\<open>id\<close>), so
  it returns some row whenever the table has one.
\<close>

theorem searchHadithByText_empty_query:
  assumes "hadith_table (cur w) = Some h" and "\<not> faulty e (SelectHadithLike (js ''%%''))"
    and "normalizeArabicText q = []" and "\<forall>c \<in> set q'. \<not> in_arabic_block c"
  shows "js ''%'' @ normalizeArabicText q @ js ''%'' = js ''%%'' \<and>
         (\<exists>found.
            searchHadithByText e q w = (Inr (take 100 found), w) \<and>
            found = sort_key order_key (h_rows h) \<and>
            length found = length (h_rows h) \<and>
            (h_rows h \<noteq> [] \<longrightarrow> take 100 found \<noteq> []) \<and>
            (\<forall>r. count_list found r = count_list (h_rows h) r) \<and>
            (\<forall>a b. a < b \<and> b < length found \<longrightarrow>
               utf8 (h_collection (found ! a)) < utf8 (h_collection (found ! b)) \<or>
               utf8 (h_collection (found ! a)) = utf8 (h_collection (found ! b)) \<and>
               cast_integer (h_id (found ! a)) \<le> cast_integer (h_id (found ! b)))) \<and>
         cast_integer (decimal n) = min (2 ^ 63 - 1) (int n) \<and>
         normalizeArabicText q' = []"
proof (intro conjI)
  let ?found = "sort_key order_key (h_rows h)"
  show p: "js ''%'' @ normalizeArabicText q @ js ''%'' = js ''%%''"
    using assms(3) by (simp add: js_def)
  have "searchHadithByText e q w =
          (Inr (take 100 (sort_key order_key
             (filter (\<lambda>r. sublist (normalizeArabicText q) (h_search_keys r)) (h_rows h)))), w)"
    using assms(1) assms(2) [folded p] by (rule search_general)
  then have "searchHadithByText e q w = (Inr (take 100 ?found), w)"
    using assms(3) by simp
  moreover have "length ?found = length (h_rows h)" by simp
  moreover have "h_rows h \<noteq> [] \<longrightarrow> take 100 ?found \<noteq> []"
  proof
    assume "h_rows h \<noteq> []"
    then have "length ?found \<noteq> 0" by simp
    then have "?found \<noteq> []" by (metis length_0_conv)
    then show "take 100 ?found \<noteq> []" by (simp add: take_eq_Nil)
  qed
  moreover have "\<forall>r. count_list ?found r = count_list (h_rows h) r"
    by (simp add: count_list_sort_key)
  moreover have "\<forall>a b. a < b \<and> b < length ?found \<longrightarrow>
               utf8 (h_collection (?found ! a)) < utf8 (h_collection (?found ! b)) \<or>
               utf8 (h_collection (?found ! a)) = utf8 (h_collection (?found ! b)) \<and>
               cast_integer (h_id (?found ! a)) \<le> cast_integer (h_id (?found ! b))"
    using order_by_collection_id_ordered by blast
  ultimately show "\<exists>found.
            searchHadithByText e q w = (Inr (take 100 found), w) \<and>
            found = sort_key order_key (h_rows h) \<and>
            length found = length (h_rows h) \<and>
            (h_rows h \<noteq> [] \<longrightarrow> take 100 found \<noteq> []) \<and>
            (\<forall>r. count_list found r = count_list (h_rows h) r) \<and>
            (\<forall>a b. a < b \<and> b < length found \<longrightarrow>
               utf8 (h_collection (found ! a)) < utf8 (h_collection (found ! b)) \<or>
               utf8 (h_collection (found ! a)) = utf8 (h_collection (found ! b)) \<and>
               cast_integer (h_id (found ! a)) \<le> cast_integer (h_id (found ! b)))"
    by blast
  show "cast_integer (decimal n) = min (2 ^ 63 - 1) (int n)" by (rule cast_integer_decimal)
  show "normalizeArabicText q' = []" using assms(4) by (rule normalize_no_arabic)
qed

theorem searchHadithByText_empty_query_witness:
  "searchHadithByText (no_faults False) (js ''abc 123'') (store_world [] [] unordered_rows) =
     (Inr [legacy_row, basmala_row (js ''2'') (js ''Bukhari''),
           basmala_row (js ''10'') (js ''Bukhari''), basmala_row (js ''1'') (js ''Muslim'')],
      store_world [] [] unordered_rows) \<and>
   normalizeArabicText (js ''abc 123'') = [] \<and>
   cast_integer (js ''1'') = 1"
proof -
  have n: "normalizeArabicText (js ''abc 123'') = []"
    by (simp add: js_def text_eval)
  have a: "\<forall>c \<in> set (js ''abc 123''). \<not> in_arabic_block c"
    by (simp add: js_def in_arabic_block_def)
  have f: "\<not> faulty (no_faults False) (SelectHadithLike (js ''%%''))" by (simp add: no_faults_def)
  have d: "decimal (Suc 0) = js ''1''" by (simp add: decimal.simps js_def)
  note t = searchHadithByText_empty_query [OF stored_rows f n a, of "[]" "[]" unordered_rows 1]
  from t obtain found where
    "searchHadithByText (no_faults False) (js ''abc 123'') (store_world [] [] unordered_rows) =
       (Inr (take 100 found), store_world [] [] unordered_rows)"
    "found = sort_key order_key unordered_rows"
    by auto
  then have 1: "searchHadithByText (no_faults False) (js ''abc 123'')
                  (store_world [] [] unordered_rows) =
     (Inr [legacy_row, basmala_row (js ''2'') (js ''Bukhari''),
           basmala_row (js ''10'') (js ''Bukhari''), basmala_row (js ''1'') (js ''Muslim'')],
      store_world [] [] unordered_rows)"
    unfolding sorted_unordered_rows by simp
  from t have 2: "cast_integer (js ''1'') = 1" by (simp add: d)
  from 1 2 n show ?thesis by simp
qed

section \<open>The early returns and the transaction of the seeding\<close>

lemma cur_log_info [simp]: "cur (log_info e m w) = cur w"
  by (simp add: log_info_add)

lemma cur_log_error [simp]: "cur (log_error m w) = cur w"
  by (simp add: log_error_add)






lemma insert_statement_basmala:
  "insert_statement (basmala_item i c) =
     InsertOrReplaceHadith i c basmala (h_text_norm (basmala_row i c))
       (h_tokens_json (basmala_row i c)) (h_search_keys (basmala_row i c)) (c @ js '':'' @ i)"
  using row_of_basmala [of i c]
  by (simp add: insert_statement_def Let_def row_of_def basmala_item_def basmala_row_def)

lemma basmala_item_sel:
  "s_id (basmala_item i c) = i" "s_collection (basmala_item i c) = c"
  "isValidSeedItem (basmala_item i c) \<longleftrightarrow> i \<noteq> [] \<and> c \<noteq> []"
  by (simp_all add: basmala_item_def isValidSeedItem_def basmala_def)

lemmas seed_eval = seed_head fresh_import_def bind_io_def runSql_def execute_def
  runTransaction_def seed_work_def transaction_failed_def return_io_def
  upsertCollection_def or_else_def or_null_def unique_in_order_def basmala_item_sel
  insert_statement_basmala
  cur_def put_def log_info_def log_warn_def log_error_def sql_failed_def sql_refused_def
  aborted_def store_world_def seeded_flag_def mark_seeded_def no_faults_def failing_on_def
  insert_or_ignore_collection_def




lemma seed_commit_fails_run:
  "seedDatabaseIfEmpty (failing_on Commit) [item1] (store_world [] [] []) =
     (Inl (DBError ''Database transaction failed.''),
      (store_world [] [bukhari] [])\<lparr>console := [ERROR TransactionFailed]\<rparr>)"
  by (simp add: seed_eval seeded_meta_def item1_def row1_def bukhari_def basmala_row_def js_def)


text \<open>
  The row inserts and the write of the flag run in one transaction. As long as no insert
  fails in the way that makes the engine roll the transaction back, the import is
  atomic. When the call fails, the transaction is rolled back: the file keeps its meta
  and hadith tables, so the flag is not \<^verbatim>\<open>"1"\<close> and no row of the import is in it.
  When the call returns, the file has the flag at \<^verbatim>\<open>"1"\<close> together with every row
  the loop inserted. While the transaction is open, after any number of iterations of
  the loop and after the flag is written, the file is still the one the transaction
  began on, which is what an interruption leaves.
\<close>

lemma rollback_free_take: "rollback_free e items \<Longrightarrow> rollback_free e (take n items)"
  by (auto simp: rollback_free_def list_ex_iff dest: in_set_takeD)

lemma seed_atomic_unless_rolled_back:
  assumes "fresh_seedable w" and "seedDatabaseIfEmpty e items w = (r, w')"
    and "txn w1 \<noteq> None" and "rollback_free e items"
  shows "txn w' = None \<and>
         (case r of
            Inl err \<Rightarrow>
              meta_table (disk w') = meta_table (disk w) \<and>
              hadith_table (disk w') = hadith_table (disk w) \<and>
              seeded_flag (disk w') \<noteq> Some (js ''1'')
          | Inr u \<Rightarrow>
              seeded_flag (disk w') = Some (js ''1'') \<and>
              (\<exists>h. hadith_table (disk w) = Some h \<and>
                   hadith_table (disk w') =
                     Some (h\<lparr>h_rows := seeded_rows e (idx_hadith_uid h) items []\<rparr>))) \<and>
         disk (snd (seed_loop e (take n items) counts w1)) = disk w1 \<and>
         txn (snd (seed_loop e (take n items) counts w1)) \<noteq> None \<and>
         disk (snd (seed_work e items w1)) = disk w1"
proof -
  from assms(1) obtain h where h: "hadith_table (disk w) = Some h" and n: "txn w = None"
    and fl: "seeded_flag (disk w) \<noteq> Some (js ''1'')"
    by (auto simp: fresh_seedable_def split: option.splits)
  have a: "txn w' = None \<and>
         (case r of
            Inl err \<Rightarrow>
              meta_table (disk w') = meta_table (disk w) \<and>
              hadith_table (disk w') = hadith_table (disk w) \<and>
              seeded_flag (disk w') \<noteq> Some (js ''1'')
          | Inr u \<Rightarrow>
              seeded_flag (disk w') = Some (js ''1'') \<and>
              (\<exists>h. hadith_table (disk w) = Some h \<and>
                   hadith_table (disk w') =
                     Some (h\<lparr>h_rows := seeded_rows e (idx_hadith_uid h) items []\<rparr>)))"
  proof (cases r)
    case (Inl err)
    from seed_Inl [OF assms(2) [unfolded Inl] n assms(4)]
    have u: "txn w' = None" "meta_table (disk w') = meta_table (disk w)"
      "hadith_table (disk w') = hadith_table (disk w)" by (simp_all add: seed_untouched_def)
    from u(2) fl have "seeded_flag (disk w') \<noteq> Some (js ''1'')" by (simp add: seeded_flag_def)
    with u Inl show ?thesis by simp
  next
    case (Inr u)
    with assms(2) seed_fresh_Inr_iff [OF assms(1), of e items w']
    have w': "w' = seeded_world e items w" by simp
    from disk_seeded_world [OF assms(1) h, of e items] h Inr show ?thesis
      unfolding w' by simp
  qed
  have t: "in_txn (disk w1) w1" using assms(3) by (simp add: in_txn_def)
  from seed_loop_in_txn [OF rollback_free_take [OF assms(4)] t, of n counts]
  have b: "disk (snd (seed_loop e (take n items) counts w1)) = disk w1"
    "txn (snd (seed_loop e (take n items) counts w1)) \<noteq> None" by (simp_all add: in_txn_def)
  obtain r2 w2 where s: "seed_work e items w1 = (r2, w2)" by (cases "seed_work e items w1")
  from txn_safeD [OF txn_safe_seed_work [OF assms(4)] t s] s
  have c: "disk (snd (seed_work e items w1)) = disk w1" by simp
  from a b c show ?thesis by blast
qed

lemma fresh_seedable_store: "fresh_seedable (store_world [] cs [])"
  by (simp add: fresh_seedable_def store_world_def seeded_flag_def)

section \<open>The unique index\<close>

lemma uids_filter:
  "filter (\<lambda>x. x \<noteq> None) (map h_uid (filter (\<lambda>r. h_uid r \<noteq> Some u) rs)) =
     filter (\<lambda>x. x \<noteq> Some u) (filter (\<lambda>x. x \<noteq> None) (map h_uid rs))"
  by (induction rs) auto

lemma uid_unique_upsert:
  assumes "uid_unique rs" and "h_uid r = Some u"
  shows "uid_unique (filter (\<lambda>x. h_uid x \<noteq> Some u) rs @ [r])"
proof -
  let ?us = "filter (\<lambda>x. x \<noteq> None) (map h_uid rs)"
  have "filter (\<lambda>x. x \<noteq> None) (map h_uid (filter (\<lambda>x. h_uid x \<noteq> Some u) rs @ [r]))
          = filter (\<lambda>x. x \<noteq> Some u) ?us @ [Some u]"
    unfolding map_append filter_append uids_filter using assms(2) by simp
  moreover have "distinct (filter (\<lambda>x. x \<noteq> Some u) ?us @ [Some u])"
  proof -
    have "distinct ?us" using assms(1) by (simp only: uid_unique_def)
    then have "distinct (filter (\<lambda>x. x \<noteq> Some u) ?us)" by (rule distinct_filter)
    then show ?thesis by (simp del: filter_filter)
  qed
  ultimately show ?thesis unfolding uid_unique_def by simp
qed

lemma uid_unique_nulls: "uid_unique (map (\<lambda>r. r\<lparr>h_uid := None\<rparr>) rs)"
proof -
  have "filter (\<lambda>x. x \<noteq> None) (map h_uid (map (\<lambda>r. r\<lparr>h_uid := None\<rparr>) rs)) = []"
    by (induction rs) simp_all
  then show ?thesis by (simp add: uid_unique_def del: map_map)
qed

lemma exec_db_sound:
  assumes "uid_index_sound d" and "exec_db s d = Some (rs, d')"
  shows "uid_index_sound d'"
proof (cases s)
  case AlterHadithAddUid
  with assms show ?thesis
    by (auto simp: uid_index_sound_def uid_unique_nulls split: option.splits if_splits)
next
  case UpdateHadithUid
  with assms show ?thesis
    by (auto simp: uid_index_sound_def Let_def split: option.splits if_splits)
next
  case CreateUniqueIndexUid
  with assms show ?thesis
    by (auto simp: uid_index_sound_def split: option.splits if_splits)
next
  case (InsertOrReplaceHadith i c ar norm tj sk u)
  with assms show ?thesis
    by (auto simp: uid_index_sound_def uid_unique_upsert split: option.splits if_splits)
next
  case CreateTableHadith
  with assms show ?thesis
    by (auto simp: uid_index_sound_def split: option.splits if_splits)
qed (use assms in \<open>auto simp: uid_index_sound_def split: option.splits if_splits prod.splits\<close>)

lemma exec_all_sound:
  "uid_index_sound d \<Longrightarrow> exec_all ss d = Some d' \<Longrightarrow> uid_index_sound d'"
proof (induction ss arbitrary: d)
  case Nil then show ?case by simp
next
  case (Cons s ss)
  from Cons.prems(2) obtain rs d1 where e: "exec_db s d = Some (rs, d1)" and r: "exec_all ss d1 = Some d'"
    by (auto split: option.splits)
  from Cons.IH [OF exec_db_sound [OF Cons.prems(1) e] r] show ?case .
qed

lemma migrate_db_sound:
  assumes "uid_index_sound d" and "migrate_db d = Some d'"
  shows "uid_index_sound d'"
proof -
  from assms(2) obtain d1 d2 where
    e1: "exec_all [CreateTableMeta, CreateTableCollections, CreateTableHadith] d = Some d1" and
    e2: "(if ''uid'' \<notin> set (table_columns d1 ''hadith'')
          then exec_all [AlterHadithAddUid, UpdateHadithUid] d1 else Some d1) = Some d2" and
    e3: "exec_all [CreateIndexCollection, CreateIndexSearch, CreateUniqueIndexUid,
                   CreateTableUserSelectedCollections, BackfillCollections] d2 = Some d'"
    unfolding migrate_db_def by (simp split: option.splits del: exec_all.simps)
  have s1: "uid_index_sound d1" using assms(1) e1 by (rule exec_all_sound)
  have s2: "uid_index_sound d2"
  proof (cases "''uid'' \<notin> set (table_columns d1 ''hadith'')")
    case True
    with e2 have "exec_all [AlterHadithAddUid, UpdateHadithUid] d1 = Some d2" by simp
    with s1 show ?thesis by (rule exec_all_sound)
  next
    case False
    with e2 s1 show ?thesis by simp
  qed
  from s2 e3 show ?thesis by (rule exec_all_sound)
qed

lemma migrate_db_unique:
  assumes "uid_index_sound d" and "migrate_db d = Some d'"
  shows "\<exists>h'. hadith_table d' = Some h' \<and> idx_hadith_uid h' \<and> uid_unique (h_rows h')"
proof -
  from migrate_db_migrated [OF assms(2)] obtain h' where
    h': "hadith_table d' = Some h'" "idx_hadith_uid h'"
    by (auto simp: migrated_def split: option.splits)
  with migrate_db_sound [OF assms] show ?thesis by (simp add: uid_index_sound_def)
qed

lemma row_of_retokenized: "row_of item1_retokenized = row1_retokenized"
  by (simp add: row_of_def item1_retokenized_def row1_retokenized_def item1_def row1_def
      basmala_item_def basmala_row_def normalize_basmala normalizedTokens_def bism_def
      normalize_bism filter_Boolean_def tokensToSearchKeys_def JSON_stringify_def json_char_def
      uid_of_def)

lemma accepted_no_faults: "accepted (no_faults dv) item \<longleftrightarrow> isValidSeedItem item"
  by (simp add: accepted_def no_faults_def)

lemma valid_items:
  "isValidSeedItem item1" "isValidSeedItem item1_retokenized" "isValidSeedItem item2"
  "isValidSeedItem item3"
  by (simp_all add: item1_def item2_def item3_def item1_retokenized_def basmala_item_sel js_def)
    (simp add: isValidSeedItem_def basmala_item_def basmala_def)

lemma seed_collections_items:
  "seed_collections [item1, item1_retokenized] = [js ''Bukhari'']"
  "seed_collections [item1, item2, item3] = [js ''Bukhari'']"
  using valid_items
  by (simp_all add: seed_collections_def unique_in_order_def)
    (simp_all add: item1_def item2_def item3_def item1_retokenized_def basmala_item_def)

lemma seed_pair_run:
  "seedDatabaseIfEmpty (no_faults False) [item1, item1_retokenized] (store_world [] [] []) =
     (Inr (), store_world seeded_meta [bukhari] [row1_retokenized])"
proof -
  have "seeded_rows (no_faults False) True [item1, item1_retokenized] [] = [row1_retokenized]"
    using valid_items
    by (simp add: seeded_rows_pair accepted_no_faults uid_of_def item1_retokenized_def
        row_of_retokenized [unfolded item1_retokenized_def])
  then have "seeded_world (no_faults False) [item1, item1_retokenized] (store_world [] [] []) =
          store_world seeded_meta [bukhari] [row1_retokenized]"
    by (simp add: seeded_world_def seed_collections_items store_world_def add_logs_def
        with_collections_def with_rows_def mark_seeded_def seeded_meta_def bukhari_def
        insert_or_ignore_collection_def seed_logs_def no_faults_def)
  with seed_fresh_Inr_iff [OF fresh_seedable_store, of "no_faults False"
      "[item1, item1_retokenized]" "[]"] seed_faultless_no_faults
  show ?thesis by simp
qed

text \<open>
  C5. Every row the seeding writes has \<^verbatim>\<open>uid\<close> equal to its collection, a colon and its
  id, and no two rows of the table have the same \<^verbatim>\<open>uid\<close>: after a seeding of a
  migrated, empty table, each item that was inserted has exactly one row with its
  \<^verbatim>\<open>uid\<close>, and of two items with the same collection and id only the row of the second
  is left. The unique index keeps this for the whole table: every statement the program
  sends preserves that the rows under the index have distinct \<^verbatim>\<open>uid\<close>s, and a
  migration that succeeds leaves the index in place.
\<close>

theorem uid_unique_across_table:
  assumes "fresh_seedable w" and "hadith_table (disk w) = Some h" and "idx_hadith_uid h"
    and "seedDatabaseIfEmpty e items w = (Inr (), w')"
    and "uid_index_sound d" and "exec_db s d = Some (rs, d')" and "migrate_db d = Some d2"
  shows "(\<exists>h'. hadith_table (disk w') = Some h' \<and>
            (\<forall>r \<in> set (h_rows h'). h_uid r = Some (h_collection r @ js '':'' @ h_id r)) \<and>
            distinct (map h_uid (h_rows h')) \<and>
            (\<forall>item \<in> set items. accepted e item \<longrightarrow>
               length (filter (\<lambda>r. h_uid r = Some (s_collection item @ js '':'' @ s_id item))
                         (h_rows h')) = 1) \<and>
            (\<forall>a b. items = [a, b] \<and> accepted e a \<and> accepted e b \<and>
                   s_collection a = s_collection b \<and> s_id a = s_id b \<longrightarrow>
                   h_rows h' = [row_of b])) \<and>
         uid_index_sound d' \<and>
         (\<exists>h2. hadith_table d2 = Some h2 \<and> idx_hadith_uid h2 \<and> uid_unique (h_rows h2))"
proof -
  let ?rows = "seeded_rows e True items []"
  from assms(4) seed_fresh_Inr_iff [OF assms(1), of e items w']
  have w': "w' = seeded_world e items w" by simp
  from disk_seeded_world(1) [OF assms(1,2), of e items] assms(3)
  have h': "hadith_table (disk w') = Some (h\<lparr>h_rows := ?rows\<rparr>)" unfolding w' by simp
  have 1: "\<forall>r \<in> set ?rows. h_uid r = Some (h_collection r @ js '':'' @ h_id r)"
    by (rule seeded_rows_all) (simp_all add: row_of_def uid_of_def)
  have 2: "distinct (map h_uid ?rows)" by (rule seeded_rows_distinct) simp
  have 3: "\<forall>item \<in> set items. accepted e item \<longrightarrow>
               length (filter (\<lambda>r. h_uid r = Some (s_collection item @ js '':'' @ s_id item)) ?rows) = 1"
  proof (intro ballI impI)
    fix item assume "item \<in> set items" "accepted e item"
    from seeded_rows_covers [OF this, of True "[]"]
    have "Some (s_collection item @ js '':'' @ s_id item) \<in> h_uid ` set ?rows"
      by (simp add: uid_of_def)
    from distinct_count_one [OF 2 this]
    show "length (filter (\<lambda>r. h_uid r = Some (s_collection item @ js '':'' @ s_id item)) ?rows) = 1" .
  qed
  have 4: "\<forall>a b. items = [a, b] \<and> accepted e a \<and> accepted e b \<and>
                   s_collection a = s_collection b \<and> s_id a = s_id b \<longrightarrow> ?rows = [row_of b]"
    by (auto simp: seeded_rows_pair uid_of_def)
  from h' 1 2 3 4 exec_db_sound [OF assms(5,6)] migrate_db_unique [OF assms(5,7)]
  show ?thesis by simp
qed

theorem uid_unique_across_table_witness:
  "seedDatabaseIfEmpty (no_faults False) [item1, item1_retokenized] (store_world [] [] []) =
     (Inr (), store_world seeded_meta [bukhari] [row1_retokenized]) \<and>
   h_uid row1_retokenized = Some (js ''Bukhari:1'') \<and>
   h_collection row1_retokenized @ js '':'' @ h_id row1_retokenized = js ''Bukhari:1'' \<and>
   row_of item1_retokenized = row1_retokenized \<and>
   row_of item1 \<noteq> row1_retokenized \<and>
   uid_index_sound (disk (store_world [] [bukhari] [row1_retokenized])) \<and>
   migrate_db empty_db = Some (disk (migrated_world [] []))"
proof -
  have e: "exec_db (insert_statement item1_retokenized) (disk (store_world [] [bukhari] [row1])) =
             Some ([], disk (store_world [] [bukhari] [row1_retokenized]))"
    using exec_insert [of "disk (store_world [] [bukhari] [row1])" _ item1_retokenized]
    by (simp add: store_world_def with_rows_def upsert_row_def row_of_retokenized)
      (simp add: row1_retokenized_def row1_def basmala_row_def)
  have s: "uid_index_sound (disk (store_world [] [bukhari] [row1]))"
    by (simp add: uid_index_sound_def store_world_def uid_unique_def)
  have m: "migrate_db (disk (store_world [] [bukhari] [row1])) = Some (disk (store_world [] [bukhari] [row1]))"
    by (rule migrated_fix)
      (simp add: migrated_def store_world_def row1_def basmala_row_def bukhari_def)
  have f: "migrate_db empty_db = Some (disk (migrated_world [] []))"
    by (simp add: empty_db_def migrate_db_def table_columns_def uid_unique_def migrated_world_def
        distinct_collections_def)
  have h: "hadith_table (disk (store_world [] [] [])) =
             Some \<lparr>has_uid = True, idx_hadith_collection = True, idx_hadith_search = True,
                    idx_hadith_uid = True, h_rows = []\<rparr>"
    by (simp add: store_world_def)
  have n: "row_of item1 \<noteq> row1_retokenized"
    by (simp add: item1_def row_of_basmala row1_retokenized_def row1_def basmala_row_def bism_def)
  from uid_unique_across_table [OF fresh_seedable_store h _ seed_pair_run s e m] seed_pair_run f n
  show ?thesis
    by (simp add: row_of_retokenized row1_retokenized_def row1_def basmala_row_def js_def)
qed

section \<open>Failures of single rows in the seeding transaction\<close>

lemma seed_loop_append:
  "seed_loop e (xs @ ys) counts w =
     seed_loop e ys (fst (seed_loop e xs counts w)) (snd (seed_loop e xs counts w))"
proof (induction xs arbitrary: counts w)
  case Nil show ?case by simp
next
  case (Cons x xs)
  obtain i k where c: "counts = (i, k)" by (cases counts)
  show ?case unfolding c by (simp add: Cons split: prod.splits sum.splits)
qed

lemma seed_logs_failed:
  assumes "item \<in> set items" and "isValidSeedItem item" and "faulty e (insert_statement item)"
  shows "ERROR (SqlFailed (insert_statement item)) \<in> set (seed_logs e items)"
    and "dev e \<Longrightarrow> WARN (SeedInsertFailed (s_id item) (s_collection item)) \<in> set (seed_logs e items)"
  using assms by (auto simp: seed_logs_def intro!: bexI [of _ item])

text \<open>
  In the fresh import a row whose insert fails is caught in the loop: the failure is
  logged (by \<^verbatim>\<open>runSql\<close> as an error, and as a warning in a development build), the row
  is counted as skipped, and the loop goes on with the rows after it. As long as the
  statements other than the row inserts succeed and no failure of an insert rolls the
  transaction back, the call returns without an error, whatever inserts fail: the table
  holds a row for every item whose insert succeeded, the flag is set, and inserted plus
  skipped is the number of items.
\<close>

lemma seed_row_failure_local_unless_rolled_back:
  assumes "fresh_seedable w" and "hadith_table (disk w) = Some h" and "seed_faultless e items"
  shows "seedDatabaseIfEmpty e items w = (Inr (), seeded_world e items w) \<and>
         hadith_table (disk (seeded_world e items w)) =
           Some (h\<lparr>h_rows := seeded_rows e (idx_hadith_uid h) items []\<rparr>) \<and>
         seeded_flag (disk (seeded_world e items w)) = Some (js ''1'') \<and>
         console (seeded_world e items w) =
           console w @ seed_logs e items @
           (if dev e then [INFO (SeedCompleted (length (filter (accepted e) items))
                                  (length (filter (\<lambda>it. \<not> accepted e it) items)))] else []) \<and>
         length (filter (accepted e) items) + length (filter (\<lambda>it. \<not> accepted e it) items)
           = length items \<and>
         (\<forall>item \<in> set items. accepted e item \<longrightarrow>
            Some (s_collection item @ js '':'' @ s_id item)
              \<in> h_uid ` set (seeded_rows e (idx_hadith_uid h) items [])) \<and>
         (\<forall>item \<in> set items. isValidSeedItem item \<and> faulty e (insert_statement item) \<longrightarrow>
            ERROR (SqlFailed (insert_statement item)) \<in> set (seed_logs e items) \<and>
            (dev e \<longrightarrow>
               WARN (SeedInsertFailed (s_id item) (s_collection item)) \<in> set (seed_logs e items))) \<and>
         seed_loop e (xs @ ys) counts w1 =
           seed_loop e ys (fst (seed_loop e xs counts w1)) (snd (seed_loop e xs counts w1))"
proof (intro conjI)
  show "seedDatabaseIfEmpty e items w = (Inr (), seeded_world e items w)"
    using seed_fresh_Inr_iff [OF assms(1)] assms(3) by blast
  show "hadith_table (disk (seeded_world e items w)) =
           Some (h\<lparr>h_rows := seeded_rows e (idx_hadith_uid h) items []\<rparr>)"
    using assms(1,2) by (rule disk_seeded_world(1))
  show "seeded_flag (disk (seeded_world e items w)) = Some (js ''1'')"
    using assms(1,2) by (rule disk_seeded_world(2))
  show "console (seeded_world e items w) =
           console w @ seed_logs e items @
           (if dev e then [INFO (SeedCompleted (length (filter (accepted e) items))
                                  (length (filter (\<lambda>it. \<not> accepted e it) items)))] else [])"
    by (rule console_seeded_world)
  show "length (filter (accepted e) items) + length (filter (\<lambda>it. \<not> accepted e it) items)
           = length items"
    by (rule sum_length_filter_compl)
  show "\<forall>item \<in> set items. accepted e item \<longrightarrow>
            Some (s_collection item @ js '':'' @ s_id item)
              \<in> h_uid ` set (seeded_rows e (idx_hadith_uid h) items [])"
    using seeded_rows_covers [of _ items e "idx_hadith_uid h" "[]"] by (simp add: uid_of_def)
  show "\<forall>item \<in> set items. isValidSeedItem item \<and> faulty e (insert_statement item) \<longrightarrow>
            ERROR (SqlFailed (insert_statement item)) \<in> set (seed_logs e items) \<and>
            (dev e \<longrightarrow>
               WARN (SeedInsertFailed (s_id item) (s_collection item)) \<in> set (seed_logs e items))"
    using seed_logs_failed by blast
  show "seed_loop e (xs @ ys) counts w1 =
           seed_loop e ys (fst (seed_loop e xs counts w1)) (snd (seed_loop e xs counts w1))"
    by (rule seed_loop_append)
qed

text \<open>
  One iteration of the loop, and the whole call on an empty, migrated store once the
  loop is evaluated: with \<^verbatim>\<open>COMMIT\<close> finding no transaction, and with the transaction
  still open.
\<close>

lemma insert_statements_differ:
  "insert_statement item1 \<noteq> insert_statement item2"
  "insert_statement item3 \<noteq> insert_statement item2"
  by (simp_all add: item1_def item2_def item3_def insert_statement_basmala js_def)

lemma seed_step_accepted:
  assumes "isValidSeedItem item" and "\<not> faulty e (insert_statement item)"
    and "hadith_table (cur w) = Some h" and "has_uid h"
  shows "seed_loop e (item # items) (i, k) w =
           seed_loop e items (i + 1, k)
             (put (with_rows (upsert_row (idx_hadith_uid h) (h_rows h) (row_of item)) (cur w)) w)"
  using assms exec_insert [OF assms(3,4), of item] by (simp add: runSql_db_stmt)

lemma seed_step_failed:
  assumes "isValidSeedItem item" and "faulty e (insert_statement item)"
  shows "seed_loop e (item # items) (i, k) w =
           seed_loop e items (i, k + 1)
             (log_warn e (SeedInsertFailed (s_id item) (s_collection item))
               (log_error (SqlFailed (insert_statement item))
                 (aborted e (insert_statement item) w)))"
  using assms by (simp add: runSql_db_stmt)

lemma env_disk_full [simp]:
  "faulty (disk_full_at item) s \<longleftrightarrow> s = insert_statement item"
  "rolls_back (disk_full_at item) s \<longleftrightarrow> s = insert_statement item"
  "dev (disk_full_at item)"
  by (simp_all add: disk_full_at_def)

lemma env_rejecting [simp]:
  "faulty (rejecting item) s \<longleftrightarrow> s = insert_statement item"
  "\<not> rolls_back (rejecting item) s"
  "dev (rejecting item)"
  by (simp_all add: rejecting_def)

lemma row_of_items: "row_of item1 = row1" "row_of item3 = row3"
  by (simp_all add: item1_def item3_def row1_def row3_def row_of_basmala)

lemma items_sel:
  "s_id item2 = js ''2''" "s_collection item2 = js ''Bukhari''"
  by (simp_all add: item2_def basmala_item_sel)

lemmas world_eval = store_world_def cur_def put_def with_rows_def upsert_row_def
  log_warn_def log_error_def aborted_def

lemma uid_rows: "h_uid row1 = Some (js ''Bukhari:1'')" "h_uid row3 = Some (js ''Bukhari:3'')"
  by (simp_all add: row1_def row3_def basmala_row_def js_def)

lemma disk_full_loop3:
  "seed_loop (disk_full_at item2) [item1, item2, item3] (0, 0)
     ((store_world [] [bukhari] [])\<lparr>txn := Some (disk (store_world [] [bukhari] []))\<rparr>) =
   ((2, 1), (store_world [] [bukhari] [row3])
        \<lparr>console := [ERROR (SqlFailed (insert_statement item2)),
                     WARN (SeedInsertFailed (js ''2'') (js ''Bukhari''))]\<rparr>)"
proof -
  let ?e = "disk_full_at item2"
  let ?w2 = "(store_world [] [bukhari] [])\<lparr>txn := Some (disk (store_world [] [bukhari] []))\<rparr>"
  let ?w3 = "(store_world [] [bukhari] [])\<lparr>txn := Some (disk (store_world [] [bukhari] [row1]))\<rparr>"
  let ?w4 = "(store_world [] [bukhari] [])
        \<lparr>console := [ERROR (SqlFailed (insert_statement item2)),
                     WARN (SeedInsertFailed (js ''2'') (js ''Bukhari''))]\<rparr>"
  let ?w5 = "(store_world [] [bukhari] [row3])
        \<lparr>console := [ERROR (SqlFailed (insert_statement item2)),
                     WARN (SeedInsertFailed (js ''2'') (js ''Bukhari''))]\<rparr>"
  have 1: "seed_loop ?e [item1, item2, item3] (0, 0) ?w2 = seed_loop ?e [item2, item3] (1, 0) ?w3"
    using seed_step_accepted [of item1 ?e ?w2 _ "[item2, item3]" 0 0] valid_items
      insert_statements_differ
    by (simp add: world_eval row_of_items)
  have 2: "seed_loop ?e [item2, item3] (1, 0) ?w3 = seed_loop ?e [item3] (1, 1) ?w4"
    using seed_step_failed [of item2 ?e "[item3]" 1 0 ?w3] valid_items
    by (simp add: world_eval items_sel)
  have 3: "seed_loop ?e [item3] (1, 1) ?w4 = ((2, 1), ?w5)"
    using seed_step_accepted [of item3 ?e ?w4 _ "[]" 1 1] valid_items
      insert_statements_differ
    by (simp add: world_eval row_of_items)
  from 1 2 3 show ?thesis by simp
qed

lemma seed_collections_two: "seed_collections [item1, item2] = [js ''Bukhari'']"
  using valid_items
  by (simp add: seed_collections_def unique_in_order_def)
    (simp add: item1_def item2_def basmala_item_def)

lemma upsert_bukhari:
  assumes "\<not> faulty e (upsert_statement (js ''Bukhari''))"
  shows "upsert_each e [js ''Bukhari''] (store_world [] [] []) = (Inr (), store_world [] [bukhari] [])"
  using assms upsert_each_Inr_iff [of "store_world [] [] []" e "[js ''Bukhari'']" "store_world [] [bukhari] []"]
  by (simp add: world_eval with_collections_def insert_or_ignore_collection_def bukhari_def)

lemma fresh_import_steps:
  assumes "seed_collections items = [js ''Bukhari'']"
    and "\<not> faulty e (upsert_statement (js ''Bukhari''))" and "\<not> faulty e Begin"
    and "\<not> faulty e ReplaceMetaSeeded"
    and "\<not> faulty e SelectSeeded" and "\<not> faulty e CountHadith"
    and "seed_loop e items (0, 0)
           ((store_world [] [bukhari] [])\<lparr>txn := Some (disk (store_world [] [bukhari] []))\<rparr>)
         = (counts, (store_world [] [bukhari] rs)\<lparr>console := logs\<rparr>)"
  shows "seedDatabaseIfEmpty e items (store_world [] [] []) =
           (Inl (DBError ''Database transaction failed.''),
            (store_world seeded_meta [bukhari] rs)\<lparr>console := logs @ [ERROR TransactionFailed]\<rparr>)"
proof -
  let ?w1 = "store_world [] [bukhari] []"
  have sw: "seed_work e items (?w1\<lparr>txn := Some (disk ?w1)\<rparr>) =
              (Inr counts, (store_world seeded_meta [bukhari] rs)\<lparr>console := logs\<rparr>)"
    unfolding seed_work_def assms(7) using assms(4)
    by (simp add: bind_io_def runSql_db_stmt is_db_stmt_def return_io_def
        world_eval seeded_meta_def)
  have tr: "runTransaction e (seed_work e items) ?w1 =
              (Inl (DBError ''Database transaction failed.''),
               (store_world seeded_meta [bukhari] rs)\<lparr>console := logs @ [ERROR TransactionFailed]\<rparr>)"
    using assms(3)
    by (simp add: runTransaction_def execute_Begin execute_Commit sw)
      (simp add: world_eval transaction_failed_world)
  have fi: "fresh_import e items (store_world [] [] []) =
              (Inl (DBError ''Database transaction failed.''),
               (store_world seeded_meta [bukhari] rs)\<lparr>console := logs @ [ERROR TransactionFailed]\<rparr>)"
    using assms(1) upsert_bukhari [OF assms(2)]
    by (simp add: fresh_import_def seed_collections_def bind_io_def tr del: upsert_each.simps)
  show ?thesis
    unfolding seed_head fi [symmetric] using assms(5,6)
    by (simp add: world_eval seeded_flag_def)
qed

text \<open>
  C4. The row inserts and the write of the flag are in one transaction, but the loop
  catches the failure of a row inside that transaction. When the insert of a row fails
  in the way that makes SQLite roll the transaction back (here the disk is full at the
  second of three items), the loop goes on outside any transaction: the third row and
  the flag are written to the file at once, \<^verbatim>\<open>COMMIT\<close> fails for want of a
  transaction, and the call ends with a \<^verbatim>\<open>DBError\<close>. The transaction has failed and
  the file has the flag at \<^verbatim>\<open>"1"\<close> with a partial import: the first row was rolled
  back, the second was refused, and only the third is stored.
\<close>

theorem seed_disk_full_breaks_atomicity:
  "seedDatabaseIfEmpty (disk_full_at item2) [item1, item2, item3] (store_world [] [] []) =
     (Inl (DBError ''Database transaction failed.''),
      (store_world seeded_meta [bukhari] [row3])
        \<lparr>console := [ERROR (SqlFailed (insert_statement item2)),
                     WARN (SeedInsertFailed (js ''2'') (js ''Bukhari'')),
                     ERROR TransactionFailed]\<rparr>) \<and>
   seeded_flag (disk (store_world seeded_meta [bukhari] [row3])) = Some (js ''1'') \<and>
   hadith_table (disk (store_world seeded_meta [bukhari] [row3])) =
     Some \<lparr>has_uid = True, idx_hadith_collection = True, idx_hadith_search = True,
            idx_hadith_uid = True, h_rows = [row3]\<rparr>"
  using fresh_import_steps [OF seed_collections_items(2) _ _ _ _ _ disk_full_loop3]
  by (simp add: insert_statement_def Let_def upsert_statement_def store_world_def
      seeded_flag_def seeded_meta_def)


lemma fresh_import_steps_ok:
  assumes "seed_collections items = [js ''Bukhari'']"
    and "\<not> faulty e (upsert_statement (js ''Bukhari''))" and "\<not> faulty e Begin"
    and "\<not> faulty e ReplaceMetaSeeded"
    and "\<not> faulty e SelectSeeded" and "\<not> faulty e CountHadith"
    and "\<not> faulty e Commit" and "dev e"
    and "seed_loop e items (0, 0)
           ((store_world [] [bukhari] [])\<lparr>txn := Some (disk (store_world [] [bukhari] []))\<rparr>)
         = (counts, (store_world [] [bukhari] [])
              \<lparr>txn := Some (disk (store_world [] [bukhari] rs)), console := logs\<rparr>)"
  shows "seedDatabaseIfEmpty e items (store_world [] [] []) =
           (Inr (),
            (store_world seeded_meta [bukhari] rs)
              \<lparr>console := logs @ [INFO (SeedCompleted (fst counts) (snd counts))]\<rparr>)"
proof -
  let ?w1 = "store_world [] [bukhari] []"
  have sw: "seed_work e items (?w1\<lparr>txn := Some (disk ?w1)\<rparr>) =
              (Inr counts, ?w1\<lparr>txn := Some (disk (store_world seeded_meta [bukhari] rs)),
                                console := logs\<rparr>)"
    unfolding seed_work_def assms(9) using assms(4)
    by (simp add: bind_io_def runSql_db_stmt is_db_stmt_def return_io_def
        world_eval seeded_meta_def)
  have tr: "runTransaction e (seed_work e items) ?w1 =
              (Inr counts, (store_world seeded_meta [bukhari] rs)\<lparr>console := logs\<rparr>)"
    using assms(3,7)
    by (simp add: runTransaction_def execute_Begin execute_Commit sw)
      (simp add: world_eval)
  have fi: "fresh_import e items (store_world [] [] []) =
              (Inr (), (store_world seeded_meta [bukhari] rs)
                 \<lparr>console := logs @ [INFO (SeedCompleted (fst counts) (snd counts))]\<rparr>)"
    using assms(1,8) upsert_bukhari [OF assms(2)]
    by (simp add: fresh_import_def seed_collections_def bind_io_def tr log_info_def
        del: upsert_each.simps)
  show ?thesis
    unfolding seed_head fi [symmetric] using assms(5,6)
    by (simp add: world_eval seeded_flag_def)
qed

lemma disk_full_loop2:
  "seed_loop (disk_full_at item2) [item1, item2] (0, 0)
     ((store_world [] [bukhari] [])\<lparr>txn := Some (disk (store_world [] [bukhari] []))\<rparr>) =
   ((1, 1), (store_world [] [bukhari] [])
        \<lparr>console := [ERROR (SqlFailed (insert_statement item2)),
                     WARN (SeedInsertFailed (js ''2'') (js ''Bukhari''))]\<rparr>)"
proof -
  let ?e = "disk_full_at item2"
  let ?w2 = "(store_world [] [bukhari] [])\<lparr>txn := Some (disk (store_world [] [bukhari] []))\<rparr>"
  let ?w3 = "(store_world [] [bukhari] [])\<lparr>txn := Some (disk (store_world [] [bukhari] [row1]))\<rparr>"
  have 1: "seed_loop ?e [item1, item2] (0, 0) ?w2 = seed_loop ?e [item2] (1, 0) ?w3"
    using seed_step_accepted [of item1 ?e ?w2 _ "[item2]" 0 0] valid_items
      insert_statements_differ
    by (simp add: world_eval row_of_items)
  have 2: "seed_loop ?e [item2] (1, 0) ?w3 =
             ((1, 1), (store_world [] [bukhari] [])
               \<lparr>console := [ERROR (SqlFailed (insert_statement item2)),
                            WARN (SeedInsertFailed (js ''2'') (js ''Bukhari''))]\<rparr>)"
    using seed_step_failed [of item2 ?e "[]" 1 0 ?w3] valid_items
    by (simp add: world_eval items_sel)
  from 1 2 show ?thesis by simp
qed

lemma rejecting_loop2:
  "seed_loop (rejecting item2) [item1, item2] (0, 0)
     ((store_world [] [bukhari] [])\<lparr>txn := Some (disk (store_world [] [bukhari] []))\<rparr>) =
   ((1, 1), (store_world [] [bukhari] [])
        \<lparr>txn := Some (disk (store_world [] [bukhari] [row1])),
         console := [ERROR (SqlFailed (insert_statement item2)),
                     WARN (SeedInsertFailed (js ''2'') (js ''Bukhari''))]\<rparr>)"
proof -
  let ?e = "rejecting item2"
  let ?w2 = "(store_world [] [bukhari] [])\<lparr>txn := Some (disk (store_world [] [bukhari] []))\<rparr>"
  let ?w3 = "(store_world [] [bukhari] [])\<lparr>txn := Some (disk (store_world [] [bukhari] [row1]))\<rparr>"
  have 1: "seed_loop ?e [item1, item2] (0, 0) ?w2 = seed_loop ?e [item2] (1, 0) ?w3"
    using seed_step_accepted [of item1 ?e ?w2 _ "[item2]" 0 0] valid_items
      insert_statements_differ
    by (simp add: world_eval row_of_items)
  have 2: "seed_loop ?e [item2] (1, 0) ?w3 =
             ((1, 1), (store_world [] [bukhari] [])
               \<lparr>txn := Some (disk (store_world [] [bukhari] [row1])),
                console := [ERROR (SqlFailed (insert_statement item2)),
                            WARN (SeedInsertFailed (js ''2'') (js ''Bukhari''))]\<rparr>)"
    using seed_step_failed [of item2 ?e "[]" 1 0 ?w3] valid_items
    by (simp add: world_eval items_sel)
  from 1 2 show ?thesis by simp
qed

text \<open>
  C9. A row whose insert fails is caught in the loop, logged and counted, and the loop
  goes on. But the catch is inside the transaction. When the insert fails in the way
  that makes SQLite roll the transaction back (here the disk is full at the second of
  two items), the row inserted before it is gone with the transaction, and
  \<^verbatim>\<open>COMMIT\<close> then fails for want of a transaction: the one bad row ends the call with
  a \<^verbatim>\<open>DBError\<close> for the caller, and no row of the batch is stored. The same input
  with a failure that leaves the transaction open (the row is refused for a constraint)
  returns without an error and keeps the first row.
\<close>

theorem seed_disk_full_row_propagates:
  "seedDatabaseIfEmpty (disk_full_at item2) [item1, item2] (store_world [] [] []) =
     (Inl (DBError ''Database transaction failed.''),
      (store_world seeded_meta [bukhari] [])
        \<lparr>console := [ERROR (SqlFailed (insert_statement item2)),
                     WARN (SeedInsertFailed (js ''2'') (js ''Bukhari'')),
                     ERROR TransactionFailed]\<rparr>) \<and>
   seedDatabaseIfEmpty (rejecting item2) [item1, item2] (store_world [] [] []) =
     (Inr (),
      (store_world seeded_meta [bukhari] [row1])
        \<lparr>console := [ERROR (SqlFailed (insert_statement item2)),
                     WARN (SeedInsertFailed (js ''2'') (js ''Bukhari'')),
                     INFO (SeedCompleted 1 1)]\<rparr>)"
  using fresh_import_steps [OF seed_collections_two _ _ _ _ _ disk_full_loop2]
    fresh_import_steps_ok [OF seed_collections_two _ _ _ _ _ _ _ rejecting_loop2]
  by (simp add: insert_statement_def Let_def upsert_statement_def)

end
